theory Spec2Isabelle
  imports Main "HOL-Library.Word"
begin

unbundle bit_operations_syntax

section \<open>The SD card emulation of \<^verbatim>\<open>hw/riscv/sifive_e.c\<close>\<close>

text \<open>
  The device is the pair of memory-mapped register handlers \<open>egos_sd_read\<close> and
  \<open>egos_sd_write\<close> together with the file-scope and function-scope static variables they
  share.  The statics become the fields of one record that every handler takes and
  returns.  A handler that stops the process (\<open>assert(0)\<close>) or touches an array outside
  its declared bounds returns an error instead of a state.

  Conventions of the embedding:
  \<^item> \<open>char\<close> is a byte, \<open>8 word\<close>.  Where C promotes a \<open>char\<close> to \<open>int\<close> or converts
    it to \<open>uint64_t\<close> the model sign-extends (\<open>scast\<close>), as on hosts whose \<open>char\<close> is
    signed; lemma \<open>cmd17_block_no_unsigned_char\<close> shows that the block number is the
    same where \<open>char\<close> is unsigned, and the final \<open>ret &= 0xFF\<close> removes the
    difference from every returned byte.
  \<^item> \<open>int\<close> values that hold bit patterns (\<open>block_no\<close> and its parts) are \<open>32 word\<close>;
    the product \<open>block_no * BLOCK_SIZE\<close> wraps at 32 bits (QEMU is compiled with
    \<open>-fwrapv\<close>, which gives signed overflow this meaning) and is read back as a signed
    offset (\<open>sint\<close>), which is what the pointer addition receives.
  \<^item> the counters \<open>sd_cmd_idx\<close>, \<open>cmd8_idx\<close>, \<open>cmd58_idx\<close>, \<open>cmd17_idx\<close> are \<open>int\<close>:
    each is only ever incremented next to an array access that the model bounds-checks,
    so none can come near the limits of a 32-bit \<open>int\<close>.
  \<^item> \<open>usleep\<close> and \<open>printf\<close> have no effect on the state and are left out.
\<close>

subsection \<open>Constants and state\<close>

definition BLOCK_SIZE :: int where
  "BLOCK_SIZE = 512"

definition SPI1_TXDATA :: "64 word" where
  "SPI1_TXDATA = 72"

definition SPI1_RXDATA :: "64 word" where
  "SPI1_RXDATA = 76"

text \<open>\<open>sizeof(sd_storage)\<close>, the array being \<open>char sd_storage[4 * 1024 * 1024]\<close>.\<close>

definition SD_STORAGE_SIZE :: int where
  "SD_STORAGE_SIZE = 4 * 1024 * 1024"

datatype sd_state_t =
    SD_IDLE
  | SD_READY
  | SD_GETTING_CMD0
  | SD_GETTING_CMD8
  | SD_GETTING_CMD16
  | SD_GETTING_CMD55
  | SD_GETTING_CMD58
  | SD_GETTING_ACMD41
  | SD_GETTING_CMD17

text \<open>The arrays of the device, to name the one an out-of-bounds access hits.\<close>

datatype sd_array = SD_CMD | SD_STORAGE | CMD8_REPLY | CMD58_REPLY | BLOCK_TO_READ

text \<open>
  \<open>Assert_Failed\<close> is \<open>assert(0)\<close>, the only deliberate fatal path of the source.
  \<open>Out_Of_Bounds a i\<close> is an access to array \<open>a\<close> at index (for \<open>SD_STORAGE\<close>: at byte
  offset) \<open>i\<close> outside the array: C gives it no meaning, and the model stops there.
\<close>

datatype error = Assert_Failed | Out_Of_Bounds sd_array int

text \<open>
  \<open>sd_cmd\<close> is \<open>char[32]\<close> and \<open>block_to_read\<close> is \<open>char[BLOCK_SIZE + 1]\<close>, kept as lists
  of that length; \<open>sd_storage\<close> is the 4 MiB array, kept as the function from an index
  below \<open>SD_STORAGE_SIZE\<close> to the byte there.
\<close>

record sd =
  sd_state :: sd_state_t
  sd_cmd_idx :: int
  sd_cmd :: "8 word list"
  sd_storage :: "nat \<Rightarrow> 8 word"
  cmd8_idx :: int
  cmd58_idx :: int
  cmd17_idx :: int
  block_to_read :: "8 word list"

definition cmd58_reply :: "8 word list" where
  "cmd58_reply = [0x00, 0xC0, 0xFF, 0x80, 0x00]"

definition cmd8_reply :: "8 word list" where
  "cmd8_reply = [0x01, 0x00, 0x00, 0x01, 0xAA]"

text \<open>
  The statics as C initialises them (zero where no initialiser is written, \<open>SD_IDLE\<close>
  being the enumerator 0), with \<open>sd_storage\<close> holding the disk image that
  \<open>egos_sd_reset\<close> loaded.
\<close>

definition sd_init :: "(nat \<Rightarrow> 8 word) \<Rightarrow> sd" where
  "sd_init img =
     \<lparr>sd_state = SD_IDLE, sd_cmd_idx = 0, sd_cmd = replicate 32 0, sd_storage = img,
      cmd8_idx = 0, cmd58_idx = 0, cmd17_idx = - 1, block_to_read = replicate 513 0\<rparr>"

text \<open>
  Three disk images for concrete runs: all zero; byte \<open>i\<close> holding \<open>i mod 256\<close>; and
  every byte of block \<open>k\<close> holding \<open>k mod 256\<close>, so that neighbouring blocks differ.
\<close>

definition zero_image :: "nat \<Rightarrow> 8 word" where
  "zero_image = (\<lambda>_. 0)"

definition ramp_image :: "nat \<Rightarrow> 8 word" where
  "ramp_image i = of_nat i"

definition block_image :: "nat \<Rightarrow> 8 word" where
  "block_image i = of_nat (i div 512)"

subsection \<open>Array accesses\<close>

text \<open>The read \<open>a[i]\<close> of a \<open>char\<close> array.\<close>

definition char_at :: "sd_array \<Rightarrow> 8 word list \<Rightarrow> int \<Rightarrow> error + 8 word" where
  "char_at a xs i =
     (if 0 \<le> i \<and> i < int (length xs) then Inr (xs ! nat i) else Inl (Out_Of_Bounds a i))"

text \<open>The statement \<open>sd_cmd[sd_cmd_idx++] = c\<close>.\<close>

definition sd_cmd_append :: "8 word \<Rightarrow> sd \<Rightarrow> error + sd" where
  "sd_cmd_append c s =
     (if 0 \<le> sd_cmd_idx s \<and> sd_cmd_idx s < 32
      then Inr (s\<lparr>sd_cmd := (sd_cmd s)[nat (sd_cmd_idx s) := c],
                  sd_cmd_idx := sd_cmd_idx s + 1\<rparr>)
      else Inl (Out_Of_Bounds SD_CMD (sd_cmd_idx s)))"

subsection \<open>\<open>egos_sd_read\<close>\<close>

text \<open>The promotion of a \<open>char\<close> to \<open>int\<close>.\<close>

definition char_to_int :: "8 word \<Rightarrow> 32 word" where
  "char_to_int c = scast c"

text \<open>The conversion of a \<open>char\<close> to \<open>uint64_t\<close> in \<open>ret = a[i]\<close>.\<close>

definition char_to_u64 :: "8 word \<Rightarrow> 64 word" where
  "char_to_u64 c = scast c"

text \<open>\<open>part1\<close> .. \<open>part4\<close> and \<open>block_no\<close>, from \<open>sd_cmd[1]\<close> .. \<open>sd_cmd[4]\<close>.\<close>

definition cmd17_block_no :: "8 word list \<Rightarrow> 32 word" where
  "cmd17_block_no cmd =
     (let part1 = push_bit 24 (char_to_int (cmd ! 1)) AND 0xFF000000;
          part2 = push_bit 16 (char_to_int (cmd ! 2)) AND 0x00FF0000;
          part3 = push_bit 8 (char_to_int (cmd ! 3)) AND 0x0000FF00;
          part4 = char_to_int (cmd ! 4) AND 0x000000FF
      in part1 OR part2 OR part3 OR part4)"

text \<open>
  The byte offset \<open>block_no * BLOCK_SIZE\<close> that is added to \<open>sd_storage\<close>: an \<open>int\<close>
  product, wrapping at 32 bits.
\<close>

definition cmd17_offset :: "8 word list \<Rightarrow> int" where
  "cmd17_offset cmd = sint (cmd17_block_no cmd * 512)"

text \<open>
  \<open>memcpy(block_to_read + 1, sd_storage + off, BLOCK_SIZE)\<close>.  The source does not
  compare \<open>off\<close> with anything; a source range that leaves \<open>sd_storage\<close> is an
  out-of-bounds read.
\<close>

definition cmd17_memcpy :: "int \<Rightarrow> sd \<Rightarrow> error + sd" where
  "cmd17_memcpy off s =
     (if 0 \<le> off \<and> off + BLOCK_SIZE \<le> SD_STORAGE_SIZE
      then Inr (s\<lparr>block_to_read :=
                    take 1 (block_to_read s)
                    @ map (sd_storage s) [nat off ..< nat off + 512]
                    @ drop 513 (block_to_read s)\<rparr>)
      else Inl (Out_Of_Bounds SD_STORAGE off))"

text \<open>The \<open>switch (sd_cmd[0])\<close> that chooses \<open>ret\<close> (lines 255 to 274).\<close>

definition sd_switch :: "sd \<Rightarrow> error + (64 word \<times> sd)" where
  "sd_switch s =
     (let c = sd_cmd s ! 0 in
      if c = 0x40 then Inr (0x01, s)
      else if c = 0x48 then
        (case char_at CMD8_REPLY cmd8_reply (cmd8_idx s) of
           Inl e \<Rightarrow> Inl e
         | Inr b \<Rightarrow> Inr (char_to_u64 b, s\<lparr>cmd8_idx := cmd8_idx s + 1\<rparr>))
      else if c = 0x7A then
        (case char_at CMD58_REPLY cmd58_reply (cmd58_idx s) of
           Inl e \<Rightarrow> Inl e
         | Inr b \<Rightarrow> Inr (char_to_u64 b, s\<lparr>cmd58_idx := cmd58_idx s + 1\<rparr>))
      else if c = 0x50 \<or> c = 0x51 \<or> c = 0x69 \<or> c = 0x77 then Inr (0x00, s)
      else Inl Assert_Failed)"

text \<open>The \<open>if\<close> / \<open>else if\<close> chain after the switch (lines 276 to 310).\<close>

definition sd_chain :: "64 word \<Rightarrow> sd \<Rightarrow> error + (64 word \<times> sd)" where
  "sd_chain ret s =
     (let c = sd_cmd s ! 0 in
      if c = 0x51 \<and> cmd17_idx s = - 1 then
        (case cmd17_memcpy (cmd17_offset (sd_cmd s)) (s\<lparr>cmd17_idx := 0\<rparr>) of
           Inl e \<Rightarrow> Inl e
         | Inr s' \<Rightarrow> Inr (ret, s'))
      else if c = 0x51 \<and> cmd17_idx s < BLOCK_SIZE then
        (case char_at BLOCK_TO_READ (block_to_read s) (cmd17_idx s) of
           Inl e \<Rightarrow> Inl e
         | Inr b \<Rightarrow> Inr (char_to_u64 b, s\<lparr>cmd17_idx := cmd17_idx s + 1\<rparr>))
      else if c = 0x51 \<and> cmd17_idx s = BLOCK_SIZE then
        (case char_at BLOCK_TO_READ (block_to_read s) (cmd17_idx s) of
           Inl e \<Rightarrow> Inl e
         | Inr b \<Rightarrow>
             Inr (char_to_u64 b, s\<lparr>cmd17_idx := - 1, sd_cmd_idx := 0, sd_state := SD_IDLE\<rparr>))
      else if c = 0x7A \<and> cmd58_idx s = 5 then
        Inr (ret, s\<lparr>cmd58_idx := 0, sd_cmd_idx := 0, sd_state := SD_IDLE\<rparr>)
      else if c = 0x48 \<and> cmd8_idx s = 5 then
        Inr (ret, s\<lparr>cmd8_idx := 0, sd_cmd_idx := 0, sd_state := SD_IDLE\<rparr>)
      else if c \<noteq> 0x7A \<and> c \<noteq> 0x48 then
        Inr (ret, s\<lparr>sd_cmd_idx := 0, sd_state := SD_IDLE\<rparr>)
      else Inr (ret, s))"

text \<open>
  The handler.  A read of another register returns 0.  Outside \<open>SD_READY\<close> the read
  returns \<open>0xFF\<close>, entering \<open>SD_READY\<close> once \<open>sd_cmd_idx >= 6\<close>.  In \<open>SD_READY\<close> it
  stores the start token in \<open>block_to_read[0]\<close>, runs the switch and the chain, and
  returns \<open>ret & 0xFF\<close>.
\<close>

definition egos_sd_read :: "64 word \<Rightarrow> sd \<Rightarrow> error + (64 word \<times> sd)" where
  "egos_sd_read addr s =
     (if addr \<noteq> SPI1_RXDATA then Inr (0, s)
      else if sd_state s \<noteq> SD_READY then
        Inr (0xFF, if sd_cmd_idx s \<ge> 6 then s\<lparr>sd_state := SD_READY\<rparr> else s)
      else
        (case sd_switch (s\<lparr>block_to_read := (block_to_read s)[0 := 0xFE]\<rparr>) of
           Inl e \<Rightarrow> Inl e
         | Inr (ret, s1) \<Rightarrow>
             (case sd_chain ret s1 of
                Inl e \<Rightarrow> Inl e
              | Inr (ret', s2) \<Rightarrow> Inr (ret' AND 0xFF, s2))))"

subsection \<open>\<open>egos_sd_write\<close>\<close>

text \<open>One \<open>case\<close> of the opcode switch: append the opcode, then set the state.\<close>

definition sd_start_cmd :: "8 word \<Rightarrow> sd_state_t \<Rightarrow> sd \<Rightarrow> error + sd" where
  "sd_start_cmd c st s =
     (case sd_cmd_append c s of Inl e \<Rightarrow> Inl e | Inr s' \<Rightarrow> Inr (s'\<lparr>sd_state := st\<rparr>))"

text \<open>
  The handler.  A write to another register does nothing.  In a \<open>SD_GETTING_*\<close> state
  the byte \<open>(char)val64\<close> is appended and \<open>sd_cmd_idx == 32\<close> afterwards is fatal.  In
  \<open>SD_IDLE\<close> and \<open>SD_READY\<close> the switch is on the whole of \<open>val64\<close>.
\<close>

definition egos_sd_write :: "64 word \<Rightarrow> 64 word \<Rightarrow> sd \<Rightarrow> error + sd" where
  "egos_sd_write addr val64 s =
     (if addr \<noteq> SPI1_TXDATA then Inr s
      else if sd_state s \<noteq> SD_IDLE \<and> sd_state s \<noteq> SD_READY then
        (case sd_cmd_append (ucast val64) s of
           Inl e \<Rightarrow> Inl e
         | Inr s' \<Rightarrow> if sd_cmd_idx s' = 32 then Inl Assert_Failed else Inr s')
      else if val64 = 0x40 then sd_start_cmd 0x40 SD_GETTING_CMD0 s
      else if val64 = 0x48 then sd_start_cmd 0x48 SD_GETTING_CMD8 s
      else if val64 = 0x50 then sd_start_cmd 0x50 SD_GETTING_CMD16 s
      else if val64 = 0x51 then sd_start_cmd 0x51 SD_GETTING_CMD17 s
      else if val64 = 0x69 then sd_start_cmd 0x69 SD_GETTING_ACMD41 s
      else if val64 = 0x77 then sd_start_cmd 0x77 SD_GETTING_CMD55 s
      else if val64 = 0x7A then sd_start_cmd 0x7A SD_GETTING_CMD58 s
      else if val64 = 0xFF then Inr s
      else Inl Assert_Failed)"

subsection \<open>Sequences of register accesses\<close>

text \<open>
  The host drives the device by writes to \<open>SPI1_TXDATA\<close> and reads of \<open>SPI1_RXDATA\<close>.
  \<open>sd_writes\<close> performs the writes of a list of values in order, \<open>sd_reads n\<close> performs
  \<open>n\<close> reads and collects the values returned, and \<open>sd_exchange\<close> is a frame followed by
  reads.  Each stops at the first error.
\<close>

fun sd_writes :: "64 word list \<Rightarrow> sd \<Rightarrow> error + sd" where
  "sd_writes [] s = Inr s"
| "sd_writes (v # vs) s =
     (case egos_sd_write SPI1_TXDATA v s of Inl e \<Rightarrow> Inl e | Inr s' \<Rightarrow> sd_writes vs s')"

fun sd_reads :: "nat \<Rightarrow> sd \<Rightarrow> error + (64 word list \<times> sd)" where
  "sd_reads 0 s = Inr ([], s)"
| "sd_reads (Suc n) s =
     (case egos_sd_read SPI1_RXDATA s of
        Inl e \<Rightarrow> Inl e
      | Inr (r, s') \<Rightarrow>
          (case sd_reads n s' of Inl e \<Rightarrow> Inl e | Inr (rs, s'') \<Rightarrow> Inr (r # rs, s'')))"

definition sd_exchange :: "64 word list \<Rightarrow> nat \<Rightarrow> sd \<Rightarrow> error + (64 word list \<times> sd)" where
  "sd_exchange frame n s =
     (case sd_writes frame s of Inl e \<Rightarrow> Inl e | Inr s' \<Rightarrow> sd_reads n s')"

text \<open>
  The states the device can be in: the initial one, for any disk image, and every state
  a handler returns from one of them.
\<close>

inductive reachable :: "sd \<Rightarrow> bool" where
  reachable_init: "reachable (sd_init img)"
| reachable_read: "reachable s \<Longrightarrow> egos_sd_read addr s = Inr (r, s') \<Longrightarrow> reachable s'"
| reachable_write: "reachable s \<Longrightarrow> egos_sd_write addr v s = Inr s' \<Longrightarrow> reachable s'"

fun sd_exchanges :: "(64 word list \<times> nat) list \<Rightarrow> sd \<Rightarrow> error + (64 word list \<times> sd)" where
  "sd_exchanges [] s = Inr ([], s)"
| "sd_exchanges ((frame, n) # xs) s =
     (case sd_exchange frame n s of
        Inl e \<Rightarrow> Inl e
      | Inr (rs, s') \<Rightarrow>
          (case sd_exchanges xs s' of
             Inl e \<Rightarrow> Inl e
           | Inr (rs', s'') \<Rightarrow> Inr (rs @ rs', s'')))"

subsection \<open>Notions used to state the properties\<close>

text \<open>
  The opcode switch of \<open>egos_sd_write\<close> read as a table: the \<open>SD_GETTING_*\<close> state each
  recognised opcode leads to.  \<open>egos_sd_write\<close> above does not use the table; lemma
  \<open>write_idle_ready\<close> shows that the two agree.
\<close>

definition getting_state :: "64 word \<Rightarrow> sd_state_t option" where
  "getting_state v =
     (if v = 0x40 then Some SD_GETTING_CMD0
      else if v = 0x48 then Some SD_GETTING_CMD8
      else if v = 0x50 then Some SD_GETTING_CMD16
      else if v = 0x51 then Some SD_GETTING_CMD17
      else if v = 0x69 then Some SD_GETTING_ACMD41
      else if v = 0x77 then Some SD_GETTING_CMD55
      else if v = 0x7A then Some SD_GETTING_CMD58
      else None)"

text \<open>
  The specification's \<open>command_buffer\<close>: the \<open>command_length = sd_cmd_idx\<close> bytes
  collected so far.  The bytes of the array \<open>sd_cmd\<close> at and beyond \<open>sd_cmd_idx\<close> are
  left over from earlier frames and are not part of it.
\<close>

definition command_buffer :: "sd \<Rightarrow> 8 word list" where
  "command_buffer s = take (nat (sd_cmd_idx s)) (sd_cmd s)"

text \<open>
  The specification's big-endian 32-bit value of four bytes, the first one most
  significant.
\<close>

definition be32 :: "8 word \<Rightarrow> 8 word \<Rightarrow> 8 word \<Rightarrow> 8 word \<Rightarrow> nat" where
  "be32 b1 b2 b3 b4 = 16777216 * unat b1 + 65536 * unat b2 + 256 * unat b3 + unat b4"

text \<open>
  For a state holding a CMD17 frame: whether the source range of the \<open>memcpy\<close> lies
  inside \<open>sd_storage\<close>, and the contents of \<open>block_to_read\<close> after the copy.
\<close>

definition cmd17_in_range :: "sd \<Rightarrow> bool" where
  "cmd17_in_range s \<longleftrightarrow>
     0 \<le> cmd17_offset (sd_cmd s) \<and> cmd17_offset (sd_cmd s) + 512 \<le> 4194304"

definition cmd17_staged :: "sd \<Rightarrow> 8 word list" where
  "cmd17_staged s =
     0xFE # map (sd_storage s)
              [nat (cmd17_offset (sd_cmd s)) ..< nat (cmd17_offset (sd_cmd s)) + 512]"

text \<open>
  The invariant of the reachable states: the arrays keep their declared lengths; the
  state determines the range of \<open>sd_cmd_idx\<close>; each reply cursor stays inside its table;
  and a cursor that is not at rest belongs to the command in \<open>sd_cmd[0]\<close>, whose frame is
  complete.
\<close>

definition sd_inv :: "sd \<Rightarrow> bool" where
  "sd_inv s \<longleftrightarrow>
     length (sd_cmd s) = 32 \<and> length (block_to_read s) = 513
     \<and> 0 \<le> sd_cmd_idx s \<and> sd_cmd_idx s \<le> 32
     \<and> (sd_state s = SD_IDLE \<longrightarrow> sd_cmd_idx s = 0)
     \<and> (sd_state s \<noteq> SD_IDLE \<longrightarrow> 1 \<le> sd_cmd_idx s)
     \<and> (sd_state s = SD_READY \<longrightarrow> 6 \<le> sd_cmd_idx s)
     \<and> 0 \<le> cmd8_idx s \<and> cmd8_idx s \<le> 4
     \<and> 0 \<le> cmd58_idx s \<and> cmd58_idx s \<le> 4
     \<and> - 1 \<le> cmd17_idx s \<and> cmd17_idx s \<le> 512
     \<and> (cmd8_idx s \<noteq> 0 \<longrightarrow> sd_cmd s ! 0 = 0x48 \<and> 6 \<le> sd_cmd_idx s)
     \<and> (cmd58_idx s \<noteq> 0 \<longrightarrow> sd_cmd s ! 0 = 0x7A \<and> 6 \<le> sd_cmd_idx s)
     \<and> (cmd17_idx s \<noteq> - 1 \<longrightarrow> sd_cmd s ! 0 = 0x51 \<and> 6 \<le> sd_cmd_idx s)"

section \<open>Properties\<close>

subsection \<open>Conversions and the block number\<close>

text \<open>
  The final \<open>ret &= 0xFF\<close> makes a byte read from a \<open>char\<close> array its unsigned value,
  and the masks of \<open>part1\<close> .. \<open>part4\<close> remove the sign extension of the promotion: the
  block number is the same whether \<open>char\<close> is signed or unsigned, and its unsigned value
  is the big-endian value of the four bytes.
\<close>

lemma char_to_u64_mask: "char_to_u64 b AND 0xFF = ucast b"
proof -
  have m: "(0xFF :: 64 word) = mask 8" by (simp add: mask_eq_exp_minus_1)
  have "(scast b :: 64 word) AND mask 8 = ucast b"
  proof (rule bit_word_eqI)
    fix n
    assume n: "n < LENGTH(64)"
    show "bit ((scast b :: 64 word) AND mask 8) n \<longleftrightarrow> bit (ucast b :: 64 word) n"
    proof (cases "n < 8")
      case True
      then have "min 7 n = n" by simp
      with True n show ?thesis by (simp add: bit_simps)
    next
      case False
      then have "\<not> bit b n" using bit_imp_le_length[of b n] by auto
      with False show ?thesis by (simp add: bit_simps)
    qed
  qed
  then show ?thesis
    by (simp add: char_to_u64_def m)
qed

lemma scast_mask8: "(scast b :: 32 word) AND mask 8 = ucast (b :: 8 word)"
proof (rule bit_word_eqI)
  fix n
  assume n: "n < LENGTH(32)"
  show "bit ((scast b :: 32 word) AND mask 8) n \<longleftrightarrow> bit (ucast b :: 32 word) n"
  proof (cases "n < 8")
    case True
    then have "min 7 n = n" by simp
    with True n show ?thesis by (simp add: bit_simps)
  next
    case False
    then have "\<not> bit b n" using bit_imp_le_length[of b n] by auto
    with False show ?thesis by (simp add: bit_simps)
  qed
qed

lemma ucast_mask8: "(ucast b :: 32 word) AND mask 8 = ucast (b :: 8 word)"
proof (rule bit_word_eqI)
  fix n
  assume "n < LENGTH(32)"
  show "bit ((ucast b :: 32 word) AND mask 8) n \<longleftrightarrow> bit (ucast b :: 32 word) n"
    using bit_imp_le_length[of b n] by (auto simp: bit_simps)
qed

lemma part_mask:
  "push_bit k (char_to_int b) AND push_bit k (mask 8) = push_bit k (ucast b)"
  unfolding char_to_int_def push_bit_and[symmetric] scast_mask8 ..

lemma masks:
  "(0xFF000000 :: 32 word) = push_bit 24 (mask 8)"
  "(0x00FF0000 :: 32 word) = push_bit 16 (mask 8)"
  "(0x0000FF00 :: 32 word) = push_bit 8 (mask 8)"
  "(0x000000FF :: 32 word) = mask 8"
  by (simp_all add: mask_eq_exp_minus_1 push_bit_eq_mult)

lemma block_no_parts:
  "cmd17_block_no cmd =
     push_bit 24 (ucast (cmd ! 1)) OR push_bit 16 (ucast (cmd ! 2))
     OR push_bit 8 (ucast (cmd ! 3)) OR ucast (cmd ! 4)"
proof -
  have p4: "char_to_int (cmd ! 4) AND mask 8 = ucast (cmd ! 4)"
    by (simp add: char_to_int_def scast_mask8)
  show ?thesis
    unfolding cmd17_block_no_def Let_def masks part_mask p4 ..
qed

lemma cmd17_block_no_unsigned_char:
  "push_bit 24 (ucast (cmd ! 1)) AND 0xFF000000
   OR push_bit 16 (ucast (cmd ! 2)) AND 0x00FF0000
   OR push_bit 8 (ucast (cmd ! 3)) AND 0x0000FF00
   OR ucast (cmd ! 4) AND 0x000000FF
   = cmd17_block_no cmd"
proof -
  have p: "push_bit k (ucast b :: 32 word) AND push_bit k (mask 8) = push_bit k (ucast b)"
    for k and b :: "8 word"
    unfolding push_bit_and[symmetric] ucast_mask8 ..
  show ?thesis
    unfolding block_no_parts masks p ucast_mask8 ..
qed

lemma bit_shifted_byte:
  "bit (push_bit k (ucast (b :: 8 word)) :: 32 word) n \<Longrightarrow> k \<le> n \<and> n < k + 8"
  using bit_imp_le_length[of b "n - k"]
  by (auto simp: bit_simps)

lemma unat_shifted_byte:
  assumes "k \<le> 24"
  shows "unat (push_bit k (ucast (b :: 8 word)) :: 32 word) = 2 ^ k * unat b"
proof -
  have "unat b < 2 ^ 8" using unsigned_less[of b] by simp
  then have "2 ^ k * unat b < 2 ^ k * 2 ^ 8" by simp
  also have "\<dots> = (2::nat) ^ (k + 8)" by (simp add: power_add)
  also have "\<dots> \<le> 2 ^ 32" using assms by (intro power_increasing) simp_all
  finally have bound: "2 ^ k * unat b < 2 ^ 32" .
  from \<open>unat b < 2 ^ 8\<close> have "unat b < 2 ^ 32"
    by (rule less_le_trans) simp
  then have up: "unat (ucast b :: 32 word) = unat b"
    by (simp add: unsigned_ucast_eq take_bit_nat_eq_self)
  have "unat (push_bit k (ucast b :: 32 word))
        = take_bit LENGTH(32) (push_bit k (unat (ucast b :: 32 word)))"
    by (rule unsigned_push_bit_eq)
  also have "\<dots> = take_bit 32 (2 ^ k * unat b)"
    by (simp add: up push_bit_eq_mult mult.commute)
  also have "\<dots> = 2 ^ k * unat b"
    using bound by (simp add: take_bit_nat_eq_self)
  finally show ?thesis .
qed

lemma block_no_sum:
  "cmd17_block_no cmd =
     push_bit 24 (ucast (cmd ! 1)) + (push_bit 16 (ucast (cmd ! 2))
     + (push_bit 8 (ucast (cmd ! 3)) + push_bit 0 (ucast (cmd ! 4))))"
proof -
  let ?p1 = "push_bit 24 (ucast (cmd ! 1)) :: 32 word"
  let ?p2 = "push_bit 16 (ucast (cmd ! 2)) :: 32 word"
  let ?p3 = "push_bit 8 (ucast (cmd ! 3)) :: 32 word"
  let ?p4 = "push_bit 0 (ucast (cmd ! 4)) :: 32 word"
  have a: "?p3 + ?p4 = ?p3 OR ?p4"
    by (rule disjunctive_add) (use bit_shifted_byte[of 8 "cmd ! 3"] bit_shifted_byte[of 0 "cmd ! 4"] in fastforce)
  have b: "?p2 + (?p3 OR ?p4) = ?p2 OR (?p3 OR ?p4)"
    by (rule disjunctive_add) (use bit_shifted_byte[of 16 "cmd ! 2"] bit_shifted_byte[of 8 "cmd ! 3"] bit_shifted_byte[of 0 "cmd ! 4"] in \<open>fastforce simp: bit_or_iff\<close>)
  have c: "?p1 + (?p2 OR (?p3 OR ?p4)) = ?p1 OR (?p2 OR (?p3 OR ?p4))"
    by (rule disjunctive_add) (use bit_shifted_byte[of 24 "cmd ! 1"] bit_shifted_byte[of 16 "cmd ! 2"] bit_shifted_byte[of 8 "cmd ! 3"] bit_shifted_byte[of 0 "cmd ! 4"] in \<open>fastforce simp: bit_or_iff\<close>)
  show ?thesis
    unfolding a b c block_no_parts by (simp add: or.assoc)
qed

lemma unat_block_no:
  "unat (cmd17_block_no cmd) = be32 (cmd ! 1) (cmd ! 2) (cmd ! 3) (cmd ! 4)"
proof -
  let ?p1 = "push_bit 24 (ucast (cmd ! 1)) :: 32 word"
  let ?p2 = "push_bit 16 (ucast (cmd ! 2)) :: 32 word"
  let ?p3 = "push_bit 8 (ucast (cmd ! 3)) :: 32 word"
  let ?p4 = "push_bit 0 (ucast (cmd ! 4)) :: 32 word"
  have u: "unat ?p1 = 2 ^ 24 * unat (cmd ! 1)" "unat ?p2 = 2 ^ 16 * unat (cmd ! 2)"
    "unat ?p3 = 2 ^ 8 * unat (cmd ! 3)" "unat ?p4 = 2 ^ 0 * unat (cmd ! 4)"
    by (rule unat_shifted_byte, simp)+
  have bd: "unat (cmd ! 1) < 256" "unat (cmd ! 2) < 256" "unat (cmd ! 3) < 256" "unat (cmd ! 4) < 256"
    using unsigned_less[of "cmd ! 1"] unsigned_less[of "cmd ! 2"] unsigned_less[of "cmd ! 3"] unsigned_less[of "cmd ! 4"]
    by simp_all
  have s34: "unat (?p3 + ?p4) = unat ?p3 + unat ?p4"
    using bd u by (subst unat_add_lem[symmetric]) simp
  have s234: "unat (?p2 + (?p3 + ?p4)) = unat ?p2 + unat (?p3 + ?p4)"
    using bd u s34 by (subst unat_add_lem[symmetric]) simp
  have s1234: "unat (?p1 + (?p2 + (?p3 + ?p4))) = unat ?p1 + unat (?p2 + (?p3 + ?p4))"
    using bd u s34 s234 by (subst unat_add_lem[symmetric]) simp
  show ?thesis
    unfolding block_no_sum s1234 s234 s34 u be32_def by simp
qed

lemma sint_small:
  fixes w :: "32 word"
  assumes "unat w < 8192"
  shows "sint (w * 512) = 512 * int (unat w)"
proof -
  define n where "n = unat w"
  have n: "n < 8192" using assms by (simp add: n_def)
  have u512: "unat (512 :: 32 word) = 512" by simp
  have "n * 512 < (2::nat) ^ 32"
    using n by simp
  then have "unat w * unat (512 :: 32 word) < 2 ^ LENGTH(32)"
    unfolding u512 n_def by simp
  then have "unat (w * 512) = unat w * unat (512 :: 32 word)"
    by (simp only: unat_mult_lem)
  then have m: "unat (w * 512) = 512 * n"
    unfolding u512 n_def by simp
  have ui: "uint (w * 512) = 512 * int n"
    by (simp only: uint_nat m of_nat_mult of_nat_numeral)
  have lo: "- (2 ^ 31) \<le> 512 * int n" by simp
  have hi: "512 * int n < 2 ^ 31" using n by simp
  have "sint (w * 512) = signed_take_bit (LENGTH(32) - Suc 0) (uint (w * 512))"
    by (rule sint_uint)
  also have "\<dots> = signed_take_bit 31 (512 * int n)"
    unfolding ui by simp
  also have "\<dots> = 512 * int n"
    using lo hi by (rule signed_take_bit_int_eq_self)
  finally show ?thesis
    unfolding n_def .
qed

lemma cmd17_offset_be32:
  assumes "be32 (cmd ! 1) (cmd ! 2) (cmd ! 3) (cmd ! 4) < 8192"
  shows "cmd17_offset cmd = 512 * int (be32 (cmd ! 1) (cmd ! 2) (cmd ! 3) (cmd ! 4))"
  using sint_small[of "cmd17_block_no cmd"] assms
  unfolding cmd17_offset_def unat_block_no by simp

lemma cmd17_frame_offset:
  assumes "length xs = 32"
  shows "cmd17_offset (xs[0 := a, Suc 0 := b1, 2 := b2, 3 := b3, 4 := b4, 5 := c])
         = cmd17_offset [a, b1, b2, b3, b4]"
  using assms by (simp add: cmd17_offset_def cmd17_block_no_def nth_list_update)

lemma cmd17_offset_examples:
  "cmd17_offset [0x51, 0x00, 0x00, 0x00, 0x00] = 0"
  "cmd17_offset [0x51, 0x00, 0x00, 0x00, 0x01] = 512"
  "cmd17_offset [0x51, 0x00, 0x00, 0x1F, 0xFF] = 4193792"
  "cmd17_offset [0x51, 0x00, 0x00, 0x20, 0x00] = 4194304"
  "cmd17_offset [0x51, 0x00, 0x80, 0x00, 0x00] = 0"
  by (simp_all add: cmd17_offset_def cmd17_block_no_def char_to_int_def)

subsection \<open>The write handler, case by case\<close>

text \<open>
  What \<open>egos_sd_write\<close> returns in a \<open>SD_GETTING_*\<close> state and for an opcode in
  \<open>SD_IDLE\<close> or \<open>SD_READY\<close>.
\<close>

lemma getting_state_Some: "getting_state v = Some st \<Longrightarrow> st \<noteq> SD_IDLE \<and> st \<noteq> SD_READY"
  by (auto simp: getting_state_def split: if_splits)

lemma write_idle_ready:
  "sd_state s = SD_IDLE \<or> sd_state s = SD_READY \<Longrightarrow>
   egos_sd_write SPI1_TXDATA v s =
     (case getting_state v of
        Some st \<Rightarrow> sd_start_cmd (ucast v) st s
      | None \<Rightarrow> if v = 0xFF then Inr s else Inl Assert_Failed)"
  by (auto simp: egos_sd_write_def getting_state_def)

lemma write_getting:
  assumes "sd_state s \<noteq> SD_IDLE" "sd_state s \<noteq> SD_READY" "0 \<le> sd_cmd_idx s" "sd_cmd_idx s < 32"
  shows "egos_sd_write SPI1_TXDATA v s =
         (if sd_cmd_idx s = 31 then Inl Assert_Failed
          else Inr (s\<lparr>sd_cmd := (sd_cmd s)[nat (sd_cmd_idx s) := ucast v],
                      sd_cmd_idx := sd_cmd_idx s + 1\<rparr>))"
  using assms by (simp add: egos_sd_write_def sd_cmd_append_def)

lemma write_opcode:
  assumes "sd_state s = SD_IDLE \<or> sd_state s = SD_READY" "getting_state v = Some st"
    "0 \<le> sd_cmd_idx s" "sd_cmd_idx s < 32"
  shows "egos_sd_write SPI1_TXDATA v s =
         Inr (s\<lparr>sd_cmd := (sd_cmd s)[nat (sd_cmd_idx s) := ucast v],
                 sd_cmd_idx := sd_cmd_idx s + 1, sd_state := st\<rparr>)"
  using assms by (simp add: write_idle_ready sd_start_cmd_def sd_cmd_append_def)

subsection \<open>The read handler, case by case\<close>

text \<open>
  What \<open>egos_sd_read\<close> returns outside \<open>SD_READY\<close> and, in \<open>SD_READY\<close>, for each value of
  \<open>sd_cmd[0]\<close> and each position of the cursor.
\<close>

lemma read_not_ready:
  "sd_state s \<noteq> SD_READY \<Longrightarrow>
   egos_sd_read SPI1_RXDATA s = Inr (0xFF, if 6 \<le> sd_cmd_idx s then s\<lparr>sd_state := SD_READY\<rparr> else s)"
  by (simp add: egos_sd_read_def)

lemma read_other_addr: "addr \<noteq> SPI1_RXDATA \<Longrightarrow> egos_sd_read addr s = Inr (0, s)"
  by (simp add: egos_sd_read_def)

lemma read_ready_single:
  assumes "sd_state s = SD_READY" "length (sd_cmd s) = 32"
    and "sd_cmd s ! 0 = 0x40 \<and> r = 1 \<or> sd_cmd s ! 0 \<in> {0x50, 0x69, 0x77} \<and> r = 0"
  shows "egos_sd_read SPI1_RXDATA s =
         Inr (r, s\<lparr>block_to_read := (block_to_read s)[0 := 0xFE], sd_cmd_idx := 0, sd_state := SD_IDLE\<rparr>)"
  using assms
  by (auto simp: egos_sd_read_def sd_switch_def sd_chain_def)

lemma read_ready_cmd8:
  assumes "sd_state s = SD_READY" "sd_cmd s ! 0 = 0x48" "0 \<le> cmd8_idx s" "cmd8_idx s \<le> 4"
  shows "egos_sd_read SPI1_RXDATA s =
         Inr (ucast (cmd8_reply ! nat (cmd8_idx s)),
              if cmd8_idx s = 4
              then s\<lparr>block_to_read := (block_to_read s)[0 := 0xFE],
                     cmd8_idx := 0, sd_cmd_idx := 0, sd_state := SD_IDLE\<rparr>
              else s\<lparr>block_to_read := (block_to_read s)[0 := 0xFE],
                     cmd8_idx := cmd8_idx s + 1\<rparr>)"
proof -
  have len: "int (length cmd8_reply) = 5" by (simp add: cmd8_reply_def)
  show ?thesis
    using assms
    by (simp add: egos_sd_read_def sd_switch_def sd_chain_def char_at_def len char_to_u64_mask)
qed

lemma read_ready_cmd58:
  assumes "sd_state s = SD_READY" "sd_cmd s ! 0 = 0x7A" "0 \<le> cmd58_idx s" "cmd58_idx s \<le> 4"
  shows "egos_sd_read SPI1_RXDATA s =
         Inr (ucast (cmd58_reply ! nat (cmd58_idx s)),
              if cmd58_idx s = 4
              then s\<lparr>block_to_read := (block_to_read s)[0 := 0xFE],
                     cmd58_idx := 0, sd_cmd_idx := 0, sd_state := SD_IDLE\<rparr>
              else s\<lparr>block_to_read := (block_to_read s)[0 := 0xFE],
                     cmd58_idx := cmd58_idx s + 1\<rparr>)"
proof -
  have len: "int (length cmd58_reply) = 5" by (simp add: cmd58_reply_def)
  show ?thesis
    using assms
    by (simp add: egos_sd_read_def sd_switch_def sd_chain_def char_at_def len char_to_u64_mask)
qed

lemma read_ready_cmd17_first:
  assumes "sd_state s = SD_READY" "sd_cmd s ! 0 = 0x51" "cmd17_idx s = - 1"
    "length (block_to_read s) = 513"
  shows "egos_sd_read SPI1_RXDATA s =
         (if cmd17_in_range s
          then Inr (0, s\<lparr>block_to_read := cmd17_staged s, cmd17_idx := 0\<rparr>)
          else Inl (Out_Of_Bounds SD_STORAGE (cmd17_offset (sd_cmd s))))"
proof -
  from assms(4) have t: "take (Suc 0) ((block_to_read s)[0 := 0xFE]) = [0xFE]"
    by (cases "block_to_read s") simp_all
  show ?thesis
    using assms
    by (simp add: egos_sd_read_def sd_switch_def sd_chain_def cmd17_memcpy_def t
        cmd17_in_range_def cmd17_staged_def BLOCK_SIZE_def SD_STORAGE_SIZE_def)
qed

lemma read_ready_cmd17_next:
  assumes "sd_state s = SD_READY" "sd_cmd s ! 0 = 0x51" "0 \<le> cmd17_idx s" "cmd17_idx s < 512"
    "length (block_to_read s) = 513"
  shows "egos_sd_read SPI1_RXDATA s =
         Inr (ucast ((block_to_read s)[0 := 0xFE] ! nat (cmd17_idx s)),
              s\<lparr>block_to_read := (block_to_read s)[0 := 0xFE], cmd17_idx := cmd17_idx s + 1\<rparr>)"
  using assms
  by (simp add: egos_sd_read_def sd_switch_def sd_chain_def char_at_def char_to_u64_mask
      BLOCK_SIZE_def)

lemma read_ready_cmd17_last:
  assumes "sd_state s = SD_READY" "sd_cmd s ! 0 = 0x51" "cmd17_idx s = 512"
    "length (block_to_read s) = 513"
  shows "egos_sd_read SPI1_RXDATA s =
         Inr (ucast ((block_to_read s)[0 := 0xFE] ! 512),
              s\<lparr>block_to_read := (block_to_read s)[0 := 0xFE],
                 cmd17_idx := - 1, sd_cmd_idx := 0, sd_state := SD_IDLE\<rparr>)"
  using assms
  by (simp add: egos_sd_read_def sd_switch_def sd_chain_def char_at_def char_to_u64_mask
      BLOCK_SIZE_def)

lemma read_ready_unknown:
  assumes "sd_state s = SD_READY" "sd_cmd s ! 0 \<notin> {0x40, 0x48, 0x7A, 0x50, 0x51, 0x69, 0x77}"
  shows "egos_sd_read SPI1_RXDATA s = Inl Assert_Failed"
  using assms
  by (simp add: egos_sd_read_def sd_switch_def)

subsection \<open>The invariant\<close>

text \<open>
  \<open>sd_inv\<close> holds initially and both handlers keep it, so it holds in every reachable
  state.  With it, the only errors a read can end in are \<open>assert(0)\<close> and the unchecked
  \<open>memcpy\<close> source.
\<close>

lemma sd_inv_init: "sd_inv (sd_init img)"
  by (simp add: sd_inv_def sd_init_def)

lemma sd_init_simps:
  "sd_state (sd_init img) = SD_IDLE" "sd_cmd_idx (sd_init img) = 0"
  "cmd8_idx (sd_init img) = 0" "cmd58_idx (sd_init img) = 0" "cmd17_idx (sd_init img) = - 1"
  "sd_storage (sd_init img) = img"
  "length (sd_cmd (sd_init img)) = 32" "length (block_to_read (sd_init img)) = 513"
  by (simp_all add: sd_init_def)

lemma sd_init_cmd: "sd_cmd (sd_init img) = [0,0,0,0,0,0,0,0,0,0,0,0,0,0,0,0,0,0,0,0,0,0,0,0,0,0,0,0,0,0,0,0]"
  by (simp add: sd_init_def numeral_eq_Suc)

lemma sd_init_explicit:
  "sd_init img =
     \<lparr>sd_state = SD_IDLE, sd_cmd_idx = 0,
      sd_cmd = [0,0,0,0,0,0,0,0,0,0,0,0,0,0,0,0,0,0,0,0,0,0,0,0,0,0,0,0,0,0,0,0],
      sd_storage = img, cmd8_idx = 0, cmd58_idx = 0, cmd17_idx = - 1,
      block_to_read = replicate 513 0\<rparr>"
proof -
  have "replicate 32 (0 :: 8 word) = [0,0,0,0,0,0,0,0,0,0,0,0,0,0,0,0,0,0,0,0,0,0,0,0,0,0,0,0,0,0,0,0]"
    by (simp add: numeral_eq_Suc)
  then show ?thesis by (simp add: sd_init_def)
qed

lemma sd_cmd_append_later:
  assumes "sd_inv s" "1 \<le> sd_cmd_idx s" "sd_cmd_append c s = Inr s'" "st \<noteq> SD_IDLE" "st \<noteq> SD_READY"
  shows "sd_inv (s'\<lparr>sd_state := st\<rparr>)"
proof -
  from assms(3) have lt: "sd_cmd_idx s < 32"
    and s': "s' = s\<lparr>sd_cmd := (sd_cmd s)[nat (sd_cmd_idx s) := c], sd_cmd_idx := sd_cmd_idx s + 1\<rparr>"
    by (auto simp: sd_cmd_append_def split: if_splits)
  have nth0: "(sd_cmd s)[nat (sd_cmd_idx s) := c] ! 0 = sd_cmd s ! 0"
    using assms(2) by (simp add: nth_list_update)
  show ?thesis
    using assms(1,2,4,5) lt unfolding s' sd_inv_def
    by (simp add: nth0) linarith
qed

lemma sd_cmd_append_first:
  assumes "sd_inv s" "sd_cmd_idx s = 0" "sd_cmd_append c s = Inr s'" "st \<noteq> SD_IDLE" "st \<noteq> SD_READY"
  shows "sd_inv (s'\<lparr>sd_state := st\<rparr>)"
proof -
  from assms(2,3) have s': "s' = s\<lparr>sd_cmd := (sd_cmd s)[0 := c], sd_cmd_idx := 1\<rparr>"
    by (auto simp: sd_cmd_append_def split: if_splits)
  from assms(1,2) have c: "cmd8_idx s = 0" "cmd58_idx s = 0" "cmd17_idx s = - 1"
    unfolding sd_inv_def by auto
  show ?thesis
    using assms(1,2,4,5) c unfolding s' sd_inv_def
    by simp
qed

lemma sd_start_cmd_inv:
  assumes "sd_inv s" "sd_state s = SD_IDLE \<or> sd_state s = SD_READY" "sd_start_cmd c st s = Inr s'" "st \<noteq> SD_IDLE" "st \<noteq> SD_READY"
  shows "sd_inv s'"
proof -
  from assms(3) obtain s1 where a: "sd_cmd_append c s = Inr s1" and s': "s' = s1\<lparr>sd_state := st\<rparr>"
    by (auto simp: sd_start_cmd_def split: sum.splits)
  from assms(1,2) have "sd_cmd_idx s = 0 \<or> 1 \<le> sd_cmd_idx s"
    unfolding sd_inv_def by auto
  then show ?thesis
    using sd_cmd_append_first[OF assms(1) _ a assms(4,5)] sd_cmd_append_later[OF assms(1) _ a assms(4,5)] s'
    by blast
qed

lemma write_inv:
  assumes "sd_inv s" "egos_sd_write addr v s = Inr s'"
  shows "sd_inv s'"
proof (cases "addr \<noteq> SPI1_TXDATA")
  case True
  with assms show ?thesis by (simp add: egos_sd_write_def)
next
  case addr: False
  show ?thesis
  proof (cases "sd_state s \<noteq> SD_IDLE \<and> sd_state s \<noteq> SD_READY")
    case True
    with addr assms(2) obtain s1 where a: "sd_cmd_append (ucast v) s = Inr s1" and s': "s' = s1"
      by (auto simp: egos_sd_write_def split: sum.splits if_splits)
    from True assms(1) have "1 \<le> sd_cmd_idx s" unfolding sd_inv_def by auto
    from sd_cmd_append_later[OF assms(1) this a, of "sd_state s"] True
    have "sd_inv (s1\<lparr>sd_state := sd_state s\<rparr>)" by simp
    moreover have "sd_state s1 = sd_state s"
      using a by (auto simp: sd_cmd_append_def split: if_splits)
    moreover have "s1\<lparr>sd_state := sd_state s1\<rparr> = s1" by simp
    ultimately show ?thesis using s' by metis
  next
    case False
    then have st: "sd_state s = SD_IDLE \<or> sd_state s = SD_READY" by simp
    from addr assms(2) have "(case getting_state v of
        Some st \<Rightarrow> sd_start_cmd (ucast v) st s
      | None \<Rightarrow> if v = 0xFF then Inr s else Inl Assert_Failed) = Inr s'" (is "?w")
      using write_idle_ready[OF st, of v] by simp
    then have w: ?w .
    show ?thesis
    proof (cases "getting_state v")
      case None
      with w have "s' = s" by (simp split: if_splits)
      with assms(1) show ?thesis by simp
    next
      case (Some st')
      with w have "sd_start_cmd (ucast v) st' s = Inr s'" by simp
      from sd_start_cmd_inv[OF assms(1) st this] getting_state_Some[OF Some]
      show ?thesis by blast
    qed
  qed
qed

lemma sd_inv_reset:
  assumes "sd_inv s" "sd_state s = SD_READY"
    "sd_cmd s ! 0 = 0x48 \<longrightarrow> c8 = 0" "sd_cmd s ! 0 = 0x7A \<longrightarrow> c58 = 0"
    "c8 = 0 \<or> c8 = cmd8_idx s" "c58 = 0 \<or> c58 = cmd58_idx s"
    "sd_cmd s ! 0 \<noteq> 0x51 \<or> c17 = - 1" "c17 = - 1 \<or> c17 = cmd17_idx s"
  shows "sd_inv (s\<lparr>block_to_read := (block_to_read s)[0 := 0xFE], cmd8_idx := c8, cmd58_idx := c58,
                   cmd17_idx := c17, sd_cmd_idx := 0, sd_state := SD_IDLE\<rparr>)"
proof -
  from assms have "c8 = 0" unfolding sd_inv_def by auto
  moreover from assms have "c58 = 0" unfolding sd_inv_def by auto
  moreover from assms have "c17 = - 1" unfolding sd_inv_def by auto
  ultimately show ?thesis
    using assms(1) unfolding sd_inv_def by simp
qed

lemma read_inv:
  assumes inv: "sd_inv s" and rd: "egos_sd_read addr s = Inr (r, s')"
  shows "sd_inv s'"
proof (cases "addr = SPI1_RXDATA")
  case False
  with rd inv show ?thesis by (simp add: read_other_addr)
next
  case addr: True
  show ?thesis
  proof (cases "sd_state s = SD_READY")
    case False
    with rd addr have "s' = (if 6 \<le> sd_cmd_idx s then s\<lparr>sd_state := SD_READY\<rparr> else s)"
      by (simp add: read_not_ready)
    with inv show ?thesis
      unfolding sd_inv_def by (simp split: if_splits)
  next
    case ready: True
    from inv have len: "length (sd_cmd s) = 32" "length (block_to_read s) = 513"
      and b8: "0 \<le> cmd8_idx s" "cmd8_idx s \<le> 4"
      and b58: "0 \<le> cmd58_idx s" "cmd58_idx s \<le> 4"
      and b17: "- 1 \<le> cmd17_idx s" "cmd17_idx s \<le> 512"
      unfolding sd_inv_def by simp_all
    let ?c = "sd_cmd s ! 0"
    consider (single) "?c = 0x40 \<or> ?c \<in> {0x50, 0x69, 0x77}" | (cmd8) "?c = 0x48"
      | (cmd58) "?c = 0x7A" | (cmd17) "?c = 0x51"
      | (unknown) "?c \<notin> {0x40, 0x48, 0x7A, 0x50, 0x51, 0x69, 0x77}"
      by auto
    then show ?thesis
    proof cases
      case single
      then obtain r0 where "?c = 0x40 \<and> r0 = (1::64 word) \<or> ?c \<in> {0x50, 0x69, 0x77} \<and> r0 = 0"
        by auto
      from read_ready_single[OF ready len(1) this] rd addr
      have s': "s' = s\<lparr>block_to_read := (block_to_read s)[0 := 0xFE], sd_cmd_idx := 0, sd_state := SD_IDLE\<rparr>"
        by simp
      from single have "?c \<noteq> 0x48" "?c \<noteq> 0x7A" "?c \<noteq> 0x51" by auto
      with sd_inv_reset[OF inv ready, of "cmd8_idx s" "cmd58_idx s" "cmd17_idx s"]
      show ?thesis unfolding s' by simp
    next
      case cmd8
      show ?thesis
      proof (cases "cmd8_idx s = 4")
        case True
        with read_ready_cmd8[OF ready cmd8 b8] rd addr
        have s': "s' = s\<lparr>block_to_read := (block_to_read s)[0 := 0xFE],
                     cmd8_idx := 0, sd_cmd_idx := 0, sd_state := SD_IDLE\<rparr>"
          by simp
        from cmd8 sd_inv_reset[OF inv ready, of 0 "cmd58_idx s" "cmd17_idx s"]
        show ?thesis unfolding s' by simp
      next
        case False
        with read_ready_cmd8[OF ready cmd8 b8] rd addr
        have s': "s' = s\<lparr>block_to_read := (block_to_read s)[0 := 0xFE],
                     cmd8_idx := cmd8_idx s + 1\<rparr>"
          by simp
        from inv ready cmd8 b8 False show ?thesis
          unfolding s' sd_inv_def by simp
      qed
    next
      case cmd58
      show ?thesis
      proof (cases "cmd58_idx s = 4")
        case True
        with read_ready_cmd58[OF ready cmd58 b58] rd addr
        have s': "s' = s\<lparr>block_to_read := (block_to_read s)[0 := 0xFE],
                     cmd58_idx := 0, sd_cmd_idx := 0, sd_state := SD_IDLE\<rparr>"
          by simp
        from cmd58 sd_inv_reset[OF inv ready, of "cmd8_idx s" 0 "cmd17_idx s"]
        show ?thesis unfolding s' by simp
      next
        case False
        with read_ready_cmd58[OF ready cmd58 b58] rd addr
        have s': "s' = s\<lparr>block_to_read := (block_to_read s)[0 := 0xFE],
                     cmd58_idx := cmd58_idx s + 1\<rparr>"
          by simp
        from inv ready cmd58 b58 False show ?thesis
          unfolding s' sd_inv_def by simp
      qed
    next
      case cmd17
      consider (first) "cmd17_idx s = - 1" | (mid) "0 \<le> cmd17_idx s" "cmd17_idx s < 512"
        | (last) "cmd17_idx s = 512"
        using b17 by linarith
      then show ?thesis
      proof cases
        case first
        with read_ready_cmd17_first[OF ready cmd17 first len(2)] rd addr
        have s': "s' = s\<lparr>block_to_read := cmd17_staged s, cmd17_idx := 0\<rparr>"
          by (simp split: if_splits)
        from inv ready cmd17 show ?thesis
          unfolding s' sd_inv_def by (simp add: cmd17_staged_def)
      next
        case mid
        with read_ready_cmd17_next[OF ready cmd17 mid len(2)] rd addr
        have s': "s' = s\<lparr>block_to_read := (block_to_read s)[0 := 0xFE], cmd17_idx := cmd17_idx s + 1\<rparr>"
          by simp
        from inv ready cmd17 mid show ?thesis
          unfolding s' sd_inv_def by simp
      next
        case last
        with read_ready_cmd17_last[OF ready cmd17 last len(2)] rd addr
        have s': "s' = s\<lparr>block_to_read := (block_to_read s)[0 := 0xFE],
                 cmd17_idx := - 1, sd_cmd_idx := 0, sd_state := SD_IDLE\<rparr>"
          by simp
        from cmd17 sd_inv_reset[OF inv ready, of "cmd8_idx s" "cmd58_idx s" "- 1"]
        show ?thesis unfolding s' by simp
      qed
    next
      case unknown
      from read_ready_unknown[OF ready unknown] rd addr show ?thesis by simp
    qed
  qed
qed

lemma reachable_inv: "reachable s \<Longrightarrow> sd_inv s"
  by (induction rule: reachable.induct) (auto intro: sd_inv_init read_inv write_inv)

lemma idle_facts:
  assumes "sd_inv s" "sd_state s = SD_IDLE"
  shows "sd_cmd_idx s = 0" "cmd8_idx s = 0" "cmd58_idx s = 0" "cmd17_idx s = - 1"
    "length (sd_cmd s) = 32" "length (block_to_read s) = 513"
  using assms unfolding sd_inv_def by auto

lemma ready_facts:
  assumes "reachable s"
  shows "length (sd_cmd s) = 32" "length (block_to_read s) = 513"
  using reachable_inv[OF assms] unfolding sd_inv_def by simp_all

lemma read_error_cases:
  assumes inv: "sd_inv s" and rd: "egos_sd_read addr s = Inl e"
  shows "e = Assert_Failed \<or> e = Out_Of_Bounds SD_STORAGE (cmd17_offset (sd_cmd s))"
proof (cases "addr = SPI1_RXDATA")
  case False
  with rd show ?thesis by (simp add: read_other_addr)
next
  case addr: True
  show ?thesis
  proof (cases "sd_state s = SD_READY")
    case False
    with rd addr show ?thesis by (simp add: read_not_ready)
  next
    case ready: True
    from inv have len: "length (sd_cmd s) = 32" "length (block_to_read s) = 513"
      and b8: "0 \<le> cmd8_idx s" "cmd8_idx s \<le> 4"
      and b58: "0 \<le> cmd58_idx s" "cmd58_idx s \<le> 4"
      and b17: "- 1 \<le> cmd17_idx s" "cmd17_idx s \<le> 512"
      unfolding sd_inv_def by simp_all
    let ?c = "sd_cmd s ! 0"
    consider (single) "?c = 0x40 \<or> ?c \<in> {0x50, 0x69, 0x77}" | (cmd8) "?c = 0x48"
      | (cmd58) "?c = 0x7A" | (cmd17) "?c = 0x51"
      | (unknown) "?c \<notin> {0x40, 0x48, 0x7A, 0x50, 0x51, 0x69, 0x77}"
      by auto
    then show ?thesis
    proof cases
      case single
      then obtain r0 where "?c = 0x40 \<and> r0 = (1::64 word) \<or> ?c \<in> {0x50, 0x69, 0x77} \<and> r0 = 0"
        by auto
      from read_ready_single[OF ready len(1) this] rd addr show ?thesis by simp
    next
      case cmd8
      from read_ready_cmd8[OF ready cmd8 b8] rd addr show ?thesis by simp
    next
      case cmd58
      from read_ready_cmd58[OF ready cmd58 b58] rd addr show ?thesis by simp
    next
      case cmd17
      consider (first) "cmd17_idx s = - 1" | (mid) "0 \<le> cmd17_idx s" "cmd17_idx s < 512"
        | (last) "cmd17_idx s = 512"
        using b17 by linarith
      then show ?thesis
      proof cases
        case first
        from read_ready_cmd17_first[OF ready cmd17 first len(2)] rd addr show ?thesis
          by (simp split: if_splits)
      next
        case mid
        from read_ready_cmd17_next[OF ready cmd17 mid len(2)] rd addr show ?thesis by simp
      next
        case last
        from read_ready_cmd17_last[OF ready cmd17 last len(2)] rd addr show ?thesis by simp
      qed
    next
      case unknown
      from read_ready_unknown[OF ready unknown] rd addr show ?thesis by simp
    qed
  qed
qed

subsection \<open>Frames and reply sequences\<close>

text \<open>
  A 6-byte frame written in \<open>SD_IDLE\<close>, the read that enters \<open>SD_READY\<close>, and the reads
  that follow for CMD0, CMD8, CMD58 and CMD17.
\<close>

lemma sd_reads_Suc0:
  "sd_reads (Suc 0) s =
     (case egos_sd_read SPI1_RXDATA s of Inl e \<Rightarrow> Inl e | Inr (r, s') \<Rightarrow> Inr ([r], s'))"
  by (simp split: sum.splits prod.splits)

lemma sd_reads_add:
  "sd_reads (m + n) s =
     (case sd_reads m s of
        Inl e \<Rightarrow> Inl e
      | Inr (rs, s') \<Rightarrow>
          (case sd_reads n s' of Inl e \<Rightarrow> Inl e | Inr (rs', s'') \<Rightarrow> Inr (rs @ rs', s'')))"
  by (induction m arbitrary: s) (auto split: sum.splits prod.splits)

lemma sd_writes_frame:
  assumes "sd_state s = SD_IDLE" "sd_cmd_idx s = 0" "getting_state v0 = Some st"
  shows "sd_writes [v0, v1, v2, v3, v4, v5] s =
         Inr (s\<lparr>sd_cmd := (sd_cmd s)[0 := ucast v0, 1 := ucast v1, 2 := ucast v2,
                                      3 := ucast v3, 4 := ucast v4, 5 := ucast v5],
                 sd_cmd_idx := 6, sd_state := st\<rparr>)"
proof -
  from assms(3) have st: "st \<noteq> SD_IDLE" "st \<noteq> SD_READY"
    using getting_state_Some by blast+
  show ?thesis
    using assms(1,2) st
    by (simp add: write_opcode[OF _ assms(3)] write_getting)
qed

lemma sd_exchange_frame:
  assumes "sd_state s = SD_IDLE" "sd_cmd_idx s = 0" "getting_state v0 = Some st"
  shows "sd_exchange [v0, v1, v2, v3, v4, v5] (Suc n) s =
         (case sd_reads n (s\<lparr>sd_cmd := (sd_cmd s)[0 := ucast v0, 1 := ucast v1, 2 := ucast v2,
                                      3 := ucast v3, 4 := ucast v4, 5 := ucast v5],
                 sd_cmd_idx := 6, sd_state := SD_READY\<rparr>) of
            Inl e \<Rightarrow> Inl e
          | Inr (rs, s') \<Rightarrow> Inr (0xFF # rs, s'))"
proof -
  from assms(3) have st: "st \<noteq> SD_IDLE" "st \<noteq> SD_READY"
    using getting_state_Some by blast+
  show ?thesis
    unfolding sd_exchange_def sd_writes_frame[OF assms]
    using st by (simp add: read_not_ready)
qed

lemma sd_exchange_frame_pred:
  assumes "sd_state s = SD_IDLE" "sd_cmd_idx s = 0" "getting_state v0 = Some st" "0 < n"
  shows "sd_exchange [v0, v1, v2, v3, v4, v5] n s =
         (case sd_reads (n - 1) (s\<lparr>sd_cmd := (sd_cmd s)[0 := ucast v0, 1 := ucast v1, 2 := ucast v2,
                                      3 := ucast v3, 4 := ucast v4, 5 := ucast v5],
                 sd_cmd_idx := 6, sd_state := SD_READY\<rparr>) of
            Inl e \<Rightarrow> Inl e
          | Inr (rs, s') \<Rightarrow> Inr (0xFF # rs, s'))"
proof -
  from assms(4) obtain m where n: "n = Suc m" by (cases n) auto
  show ?thesis
    unfolding n sd_exchange_frame[OF assms(1-3)] by simp
qed

lemma frame_nth:
  assumes "length xs = 32"
  shows "xs[0 := a, 1 := b, 2 := c, 3 := d, 4 := e, 5 := f] ! 0 = a"
    "xs[0 := a, 1 := b, 2 := c, 3 := d, 4 := e, 5 := f] ! 1 = b"
    "xs[0 := a, 1 := b, 2 := c, 3 := d, 4 := e, 5 := f] ! 2 = c"
    "xs[0 := a, 1 := b, 2 := c, 3 := d, 4 := e, 5 := f] ! 3 = d"
    "xs[0 := a, 1 := b, 2 := c, 3 := d, 4 := e, 5 := f] ! 4 = e"
  using assms by (simp_all add: nth_list_update)

lemma frame_update_twice:
  "xs[0 := a, Suc 0 := b, 2 := c, 3 := d, 4 := e, 5 := f,
      0 := a, Suc 0 := b, 2 := c, 3 := d, 4 := e, 5 := f]
   = xs[0 := a, Suc 0 := b, 2 := c, 3 := d, 4 := e, 5 := f]" (is "?l = ?r")
proof (rule nth_equalityI)
  show "length ?l = length ?r" by simp
next
  fix i
  assume "i < length ?l"
  then have i: "i < length xs" by simp
  consider "i = 0" | "i = Suc 0" | "i = 2" | "i = 3" | "i = 4" | "i = 5" | "5 < i"
    by linarith
  then show "?l ! i = ?r ! i"
    using i by cases simp_all
qed

lemma cmd0_read:
  assumes "sd_state s = SD_READY" "sd_cmd s ! 0 = 0x40" "length (sd_cmd s) = 32"
  shows "sd_reads (Suc 0) s =
         Inr ([0x01], s\<lparr>block_to_read := (block_to_read s)[0 := 0xFE], sd_cmd_idx := 0,
                          sd_state := SD_IDLE\<rparr>)"
  using assms read_ready_single[of s 1] by (simp add: sd_reads_Suc0)

lemma cmd0_exchange:
  assumes "sd_state s = SD_IDLE" "sd_cmd_idx s = 0" "length (sd_cmd s) = 32"
  shows "sd_exchange [0x40, v1, v2, v3, v4, v5] 2 s =
         Inr ([0xFF, 0x01],
              s\<lparr>sd_cmd := (sd_cmd s)[0 := 0x40, 1 := ucast v1, 2 := ucast v2,
                                      3 := ucast v3, 4 := ucast v4, 5 := ucast v5],
                 block_to_read := (block_to_read s)[0 := 0xFE],
                 sd_cmd_idx := 0, sd_state := SD_IDLE\<rparr>)"
proof -
  have g: "getting_state 0x40 = Some SD_GETTING_CMD0"
    by (simp add: getting_state_def)
  let ?r = "s\<lparr>sd_cmd := (sd_cmd s)[0 := 0x40, 1 := ucast v1, 2 := ucast v2,
                                      3 := ucast v3, 4 := ucast v4, 5 := ucast v5],
                 sd_cmd_idx := 6, sd_state := SD_READY\<rparr>"
  have "sd_state ?r = SD_READY" "sd_cmd ?r ! 0 = 0x40" "length (sd_cmd ?r) = 32"
    using assms(3) by (simp_all add: frame_nth)
  from cmd0_read[OF this] show ?thesis
    by (simp add: sd_exchange_frame_pred[OF assms(1,2) g])
qed

lemma cmd8_reads4:
  assumes "sd_state s = SD_READY" "sd_cmd s ! 0 = 0x48" "cmd8_idx s = 0"
  shows "sd_reads 4 s =
         Inr ([0x01, 0x00, 0x00, 0x01],
              s\<lparr>block_to_read := (block_to_read s)[0 := 0xFE], cmd8_idx := 4\<rparr>)"
proof -
  have four: "sd_reads 4 s = sd_reads (Suc (Suc (Suc (Suc 0)))) s"
    by (simp add: numeral_eq_Suc)
  show ?thesis
    unfolding four using assms by (simp add: read_ready_cmd8 cmd8_reply_def)
qed

lemma cmd8_reads5:
  assumes "sd_state s = SD_READY" "sd_cmd s ! 0 = 0x48" "cmd8_idx s = 0"
  shows "sd_reads 5 s =
         Inr ([0x01, 0x00, 0x00, 0x01, 0xAA],
              s\<lparr>block_to_read := (block_to_read s)[0 := 0xFE], cmd8_idx := 0,
                 sd_cmd_idx := 0, sd_state := SD_IDLE\<rparr>)"
proof -
  let ?s4 = "s\<lparr>block_to_read := (block_to_read s)[0 := 0xFE], cmd8_idx := 4\<rparr>"
  have "sd_reads (Suc 0) ?s4 =
        Inr ([0xAA], s\<lparr>block_to_read := (block_to_read s)[0 := 0xFE], cmd8_idx := 0,
                 sd_cmd_idx := 0, sd_state := SD_IDLE\<rparr>)"
    using assms by (simp add: sd_reads_Suc0 read_ready_cmd8 cmd8_reply_def)
  moreover have "sd_reads 5 s = sd_reads (4 + Suc 0) s" by simp
  ultimately show ?thesis
    unfolding sd_reads_add[of 4] cmd8_reads4[OF assms] by simp
qed

lemma cmd58_reads4:
  assumes "sd_state s = SD_READY" "sd_cmd s ! 0 = 0x7A" "cmd58_idx s = 0"
  shows "sd_reads 4 s =
         Inr ([0x00, 0xC0, 0xFF, 0x80],
              s\<lparr>block_to_read := (block_to_read s)[0 := 0xFE], cmd58_idx := 4\<rparr>)"
proof -
  have four: "sd_reads 4 s = sd_reads (Suc (Suc (Suc (Suc 0)))) s"
    by (simp add: numeral_eq_Suc)
  show ?thesis
    unfolding four using assms by (simp add: read_ready_cmd58 cmd58_reply_def)
qed

lemma cmd58_reads5:
  assumes "sd_state s = SD_READY" "sd_cmd s ! 0 = 0x7A" "cmd58_idx s = 0"
  shows "sd_reads 5 s =
         Inr ([0x00, 0xC0, 0xFF, 0x80, 0x00],
              s\<lparr>block_to_read := (block_to_read s)[0 := 0xFE], cmd58_idx := 0,
                 sd_cmd_idx := 0, sd_state := SD_IDLE\<rparr>)"
proof -
  let ?s4 = "s\<lparr>block_to_read := (block_to_read s)[0 := 0xFE], cmd58_idx := 4\<rparr>"
  have "sd_reads (Suc 0) ?s4 =
        Inr ([0x00], s\<lparr>block_to_read := (block_to_read s)[0 := 0xFE], cmd58_idx := 0,
                 sd_cmd_idx := 0, sd_state := SD_IDLE\<rparr>)"
    using assms by (simp add: sd_reads_Suc0 read_ready_cmd58 cmd58_reply_def)
  moreover have "sd_reads 5 s = sd_reads (4 + Suc 0) s" by simp
  ultimately show ?thesis
    unfolding sd_reads_add[of 4] cmd58_reads4[OF assms] by simp
qed

lemma cmd17_stream:
  assumes "sd_state s = SD_READY" "sd_cmd s ! 0 = 0x51" "length (block_to_read s) = 513"
    "block_to_read s ! 0 = 0xFE" "cmd17_idx s = int i" "i + k \<le> 512"
  shows "sd_reads k s =
         Inr (map (\<lambda>j. ucast (block_to_read s ! j)) [i ..< i + k], s\<lparr>cmd17_idx := int (i + k)\<rparr>)"
  using assms
proof (induction k arbitrary: s i)
  case 0
  then show ?case by simp
next
  case (Suc k)
  from Suc.prems have upd: "(block_to_read s)[0 := 0xFE] = block_to_read s"
    by (metis list_update_id)
  from Suc.prems have rd: "egos_sd_read SPI1_RXDATA s =
      Inr (ucast (block_to_read s ! i), s\<lparr>cmd17_idx := int (Suc i)\<rparr>)"
    using read_ready_cmd17_next[of s] by (simp add: upd add.commute)
  let ?s1 = "s\<lparr>cmd17_idx := int (Suc i)\<rparr>"
  from Suc.prems have "sd_reads k ?s1 =
      Inr (map (\<lambda>j. ucast (block_to_read ?s1 ! j)) [Suc i ..< Suc i + k], ?s1\<lparr>cmd17_idx := int (Suc i + k)\<rparr>)"
    by (intro Suc.IH) simp_all
  moreover have "[i ..< i + Suc k] = i # [Suc i ..< Suc i + k]"
    by (subst upt_rec) simp
  ultimately show ?case using rd
    by (simp del: upt_Suc)
qed

lemma cmd17_transfer:
  assumes "sd_state s = SD_READY" "sd_cmd s ! 0 = 0x51" "length (block_to_read s) = 513"
    "cmd17_idx s = - 1" "cmd17_in_range s"
  shows "sd_reads 514 s =
         Inr (0 # map ucast (cmd17_staged s),
              s\<lparr>block_to_read := cmd17_staged s, cmd17_idx := - 1, sd_cmd_idx := 0,
                 sd_state := SD_IDLE\<rparr>)"
proof -
  let ?s1 = "s\<lparr>block_to_read := cmd17_staged s, cmd17_idx := 0\<rparr>"
  let ?s2 = "?s1\<lparr>cmd17_idx := int (0 + 512)\<rparr>"
  have len: "length (cmd17_staged s) = 513" by (simp add: cmd17_staged_def)
  have hd: "cmd17_staged s ! 0 = 0xFE" by (simp add: cmd17_staged_def)
  have r1: "sd_reads (Suc 0) s = Inr ([0], ?s1)"
    using assms by (simp add: sd_reads_Suc0 read_ready_cmd17_first)
  have r2: "sd_reads 512 ?s1 =
      Inr (map (\<lambda>j. ucast (block_to_read ?s1 ! j)) [0 ..< 0 + 512], ?s2)"
    using assms by (intro cmd17_stream) (simp_all add: len hd)
  have upd: "(cmd17_staged s)[0 := 0xFE] = cmd17_staged s"
    using hd by (metis list_update_id)
  have r3: "sd_reads (Suc 0) ?s2 =
      Inr ([ucast (cmd17_staged s ! 512)],
           s\<lparr>block_to_read := cmd17_staged s, cmd17_idx := - 1, sd_cmd_idx := 0,
                 sd_state := SD_IDLE\<rparr>)"
    using assms read_ready_cmd17_last[of ?s2] by (simp add: sd_reads_Suc0 len upd)
  have "map (\<lambda>j. ucast (cmd17_staged s ! j) :: 64 word) [0 ..< length (cmd17_staged s)]
        = map ucast (cmd17_staged s)"
    by (rule nth_equalityI) simp_all
  moreover have "[0 ..< length (cmd17_staged s)] = [0 ..< 512] @ [512]"
    unfolding len using upt_Suc_append[of 0 512] by simp
  ultimately have all: "map (\<lambda>j. ucast (cmd17_staged s ! j) :: 64 word) [0 ..< 512] @ [ucast (cmd17_staged s ! 512)]
       = map ucast (cmd17_staged s)"
    by simp
  have "sd_reads 514 s = sd_reads (Suc 0 + (512 + Suc 0)) s" by simp
  also have "\<dots> = Inr (0 # map ucast (cmd17_staged s),
              s\<lparr>block_to_read := cmd17_staged s, cmd17_idx := - 1, sd_cmd_idx := 0,
                 sd_state := SD_IDLE\<rparr>)"
    unfolding sd_reads_add[of "Suc 0"] sd_reads_add[of 512] r1 using r2 r3 all by simp
  finally show ?thesis .
qed

lemma cmd17_prefix:
  assumes "sd_state s = SD_READY" "sd_cmd s ! 0 = 0x51" "length (block_to_read s) = 513"
    "cmd17_idx s = - 1" "cmd17_in_range s" "k \<le> 512"
  shows "sd_reads (Suc k) s =
         Inr (0 # map (\<lambda>j. ucast (cmd17_staged s ! j)) [0 ..< k],
              s\<lparr>block_to_read := cmd17_staged s, cmd17_idx := int k\<rparr>)"
proof -
  let ?s1 = "s\<lparr>block_to_read := cmd17_staged s, cmd17_idx := 0\<rparr>"
  have len: "length (cmd17_staged s) = 513" by (simp add: cmd17_staged_def)
  have hd: "cmd17_staged s ! 0 = 0xFE" by (simp add: cmd17_staged_def)
  have r1: "egos_sd_read SPI1_RXDATA s = Inr (0, ?s1)"
    using assms by (simp add: read_ready_cmd17_first)
  have r2: "sd_reads k ?s1 =
      Inr (map (\<lambda>j. ucast (block_to_read ?s1 ! j)) [0 ..< 0 + k], ?s1\<lparr>cmd17_idx := int (0 + k)\<rparr>)"
    using assms by (intro cmd17_stream) (simp_all add: len hd)
  show ?thesis
    using r2 by (simp add: r1)
qed

lemma cmd17_exchange:
  assumes "sd_inv s" "sd_state s = SD_IDLE"
    "be32 (ucast v1) (ucast v2) (ucast v3) (ucast v4) = B" "B < 8192" "0 < n" "n \<le> 513"
  shows "sd_exchange [0x51, v1, v2, v3, v4, v5] (Suc n) s =
         Inr (0xFF # 0x00 # map ucast (take (n - 1) (0xFE # map (sd_storage s) [512 * B ..< 512 * B + 512])),
              s\<lparr>sd_cmd := (sd_cmd s)[0 := 0x51, 1 := ucast v1, 2 := ucast v2,
                                      3 := ucast v3, 4 := ucast v4, 5 := ucast v5],
                 sd_cmd_idx := 6, sd_state := SD_READY,
                 block_to_read := 0xFE # map (sd_storage s) [512 * B ..< 512 * B + 512],
                 cmd17_idx := int n - 1\<rparr>)"
    and "sd_exchange [0x51, v1, v2, v3, v4, v5] 515 s =
         Inr (0xFF # 0x00 # 0xFE # map (\<lambda>i. ucast (sd_storage s i)) [512 * B ..< 512 * B + 512],
              s\<lparr>sd_cmd := (sd_cmd s)[0 := 0x51, 1 := ucast v1, 2 := ucast v2,
                                      3 := ucast v3, 4 := ucast v4, 5 := ucast v5],
                 block_to_read := 0xFE # map (sd_storage s) [512 * B ..< 512 * B + 512],
                 cmd17_idx := - 1, sd_cmd_idx := 0, sd_state := SD_IDLE\<rparr>)"
    and "sd_exchange [0x51, v1, v2, v3, v4, v5] 516 s =
         Inr (0xFF # 0x00 # 0xFE # map (\<lambda>i. ucast (sd_storage s i)) [512 * B ..< 512 * B + 512]
                @ [0xFF],
              s\<lparr>sd_cmd := (sd_cmd s)[0 := 0x51, 1 := ucast v1, 2 := ucast v2,
                                      3 := ucast v3, 4 := ucast v4, 5 := ucast v5],
                 block_to_read := 0xFE # map (sd_storage s) [512 * B ..< 512 * B + 512],
                 cmd17_idx := - 1, sd_cmd_idx := 0, sd_state := SD_IDLE\<rparr>)"
proof -
  note idle = idle_facts[OF assms(1,2)]
  have g: "getting_state 0x51 = Some SD_GETTING_CMD17"
    by (simp add: getting_state_def)
  let ?cmd = "(sd_cmd s)[0 := 0x51, Suc 0 := ucast v1, 2 := ucast v2,
                                      3 := ucast v3, 4 := ucast v4, 5 := ucast v5]"
  let ?r = "s\<lparr>sd_cmd := ?cmd, sd_cmd_idx := 6, sd_state := SD_READY\<rparr>"
  let ?blk = "0xFE # map (sd_storage s) [512 * B ..< 512 * B + 512]"
  let ?fin = "s\<lparr>sd_cmd := ?cmd, block_to_read := ?blk,
                 cmd17_idx := - 1, sd_cmd_idx := 0, sd_state := SD_IDLE\<rparr>"
  have "cmd17_offset [0x51, ucast v1, ucast v2, ucast v3, ucast v4] = 512 * int B"
    using cmd17_offset_be32[of "[0x51, ucast v1, ucast v2, ucast v3, ucast v4]"] assms(3,4)
    by simp
  then have off: "cmd17_offset ?cmd = 512 * int B"
    by (simp add: cmd17_frame_offset idle)
  have nat_off: "nat (512 * int B) = 512 * B" by simp
  have p: "sd_state ?r = SD_READY" "sd_cmd ?r ! 0 = 0x51" "length (block_to_read ?r) = 513"
    "cmd17_idx ?r = - 1"
    using idle by (simp_all add: frame_nth)
  have ir: "cmd17_in_range ?r"
    using assms(4) by (simp add: cmd17_in_range_def off)
  have st: "cmd17_staged ?r = ?blk"
    by (simp add: cmd17_staged_def off nat_off)
  have e: "sd_exchange [0x51, v1, v2, v3, v4, v5] (Suc m) s =
           (case sd_reads m ?r of Inl e \<Rightarrow> Inl e | Inr (rs, s') \<Rightarrow> Inr (0xFF # rs, s'))" for m
    using sd_exchange_frame[OF assms(2) idle(1) g, of v1 v2 v3 v4 v5 m] by simp
  from assms(5) obtain k where n: "n = Suc k" by (cases n) auto
  with assms(6) have k: "k \<le> 512" by simp
  have "map (\<lambda>j. ucast (?blk ! j) :: 64 word) [0 ..< k] = map ucast (take k ?blk)"
    using k by (intro nth_equalityI) simp_all
  with cmd17_prefix[OF p ir k] show "sd_exchange [0x51, v1, v2, v3, v4, v5] (Suc n) s =
         Inr (0xFF # 0x00 # map ucast (take (n - 1) ?blk),
              s\<lparr>sd_cmd := (sd_cmd s)[0 := 0x51, 1 := ucast v1, 2 := ucast v2,
                                      3 := ucast v3, 4 := ucast v4, 5 := ucast v5],
                 sd_cmd_idx := 6, sd_state := SD_READY,
                 block_to_read := ?blk, cmd17_idx := int n - 1\<rparr>)"
    unfolding e n st by simp
  have t514: "sd_reads 514 ?r =
      Inr (0x00 # 0xFE # map (\<lambda>i. ucast (sd_storage s i)) [512 * B ..< 512 * B + 512], ?fin)"
    using cmd17_transfer[OF p ir] unfolding st by (simp add: comp_def)
  have "(515::nat) = Suc 514" by simp
  then show "sd_exchange [0x51, v1, v2, v3, v4, v5] 515 s =
         Inr (0xFF # 0x00 # 0xFE # map (\<lambda>i. ucast (sd_storage s i)) [512 * B ..< 512 * B + 512],
              s\<lparr>sd_cmd := (sd_cmd s)[0 := 0x51, 1 := ucast v1, 2 := ucast v2,
                                      3 := ucast v3, 4 := ucast v4, 5 := ucast v5],
                 block_to_read := ?blk, cmd17_idx := - 1, sd_cmd_idx := 0, sd_state := SD_IDLE\<rparr>)"
    using e[of 514] t514 by simp
  have "sd_reads (514 + Suc 0) ?r =
      Inr ((0x00 # 0xFE # map (\<lambda>i. ucast (sd_storage s i)) [512 * B ..< 512 * B + 512]) @ [0xFF],
           ?fin)"
    unfolding sd_reads_add[of 514] t514 by (simp add: sd_reads_Suc0 read_not_ready)
  moreover have "(516::nat) = Suc (514 + Suc 0)" by simp
  ultimately show "sd_exchange [0x51, v1, v2, v3, v4, v5] 516 s =
         Inr (0xFF # 0x00 # 0xFE # map (\<lambda>i. ucast (sd_storage s i)) [512 * B ..< 512 * B + 512]
                @ [0xFF],
              s\<lparr>sd_cmd := (sd_cmd s)[0 := 0x51, 1 := ucast v1, 2 := ucast v2,
                                      3 := ucast v3, 4 := ucast v4, 5 := ucast v5],
                 block_to_read := ?blk, cmd17_idx := - 1, sd_cmd_idx := 0, sd_state := SD_IDLE\<rparr>)"
    using e[of "514 + Suc 0"] by simp
qed

subsection \<open>Reachability along sequences\<close>

text \<open>
  The states that sequences of accesses lead to are reachable.
\<close>

lemma reachable_sd_writes:
  "reachable s \<Longrightarrow> sd_writes vs s = Inr s' \<Longrightarrow> reachable s'"
proof (induction vs arbitrary: s)
  case Nil
  then show ?case by simp
next
  case (Cons v vs)
  then show ?case
    by (auto split: sum.splits intro: reachable_write)
qed

lemma reachable_sd_reads:
  "reachable s \<Longrightarrow> sd_reads n s = Inr (rs, s') \<Longrightarrow> reachable s'"
proof (induction n arbitrary: s rs)
  case 0
  then show ?case by simp
next
  case (Suc n)
  then show ?case
    by (auto split: sum.splits prod.splits intro: reachable_read)
qed

lemma reachable_sd_exchange:
  "reachable s \<Longrightarrow> sd_exchange frame n s = Inr (rs, s') \<Longrightarrow> reachable s'"
  unfolding sd_exchange_def
  by (auto split: sum.splits intro: reachable_sd_writes reachable_sd_reads)

lemma reachable_frame_ready:
  fixes v0 v1 v2 v3 v4 v5 :: "64 word"
  assumes "reachable s" "sd_state s = SD_IDLE" "getting_state v0 = Some st"
  shows "reachable (s\<lparr>sd_cmd := (sd_cmd s)[0 := ucast v0, 1 := ucast v1, 2 := ucast v2,
                                      3 := ucast v3, 4 := ucast v4, 5 := ucast v5],
                 sd_cmd_idx := 6, sd_state := SD_READY\<rparr>)"
proof -
  from assms(1,2) have i: "sd_cmd_idx s = 0"
    using idle_facts(1) reachable_inv by blast
  have "sd_exchange [v0, v1, v2, v3, v4, v5] (Suc 0) s =
        Inr ([0xFF], s\<lparr>sd_cmd := (sd_cmd s)[0 := ucast v0, 1 := ucast v1, 2 := ucast v2,
                                      3 := ucast v3, 4 := ucast v4, 5 := ucast v5],
                 sd_cmd_idx := 6, sd_state := SD_READY\<rparr>)"
    by (simp add: sd_exchange_frame[OF assms(2) i assms(3)])
  with assms(1) show ?thesis by (rule reachable_sd_exchange)
qed

lemma reachable_cmd17_mid:
  assumes "reachable s" "sd_state s = SD_READY" "sd_cmd s ! 0 = 0x51" "cmd17_idx s = - 1"
    "cmd17_in_range s" "k \<le> 512"
  shows "reachable (s\<lparr>block_to_read := cmd17_staged s, cmd17_idx := int k\<rparr>)"
  using cmd17_prefix[OF assms(2,3) ready_facts(2)[OF assms(1)] assms(4,5,6)] assms(1)
  by (rule reachable_sd_reads[rotated])

subsection \<open>An opcode written in \<open>SD_IDLE\<close>\<close>

text \<open>
  In a reachable \<open>SD_IDLE\<close> state \<open>sd_cmd_idx\<close> is 0, so a recognised opcode becomes the
  only byte of \<open>command_buffer\<close>, whatever the array \<open>sd_cmd\<close> held before.
\<close>

lemma opcode_write_in_idle:
  assumes "reachable s" "sd_state s = SD_IDLE" "getting_state v = Some st"
  shows "egos_sd_write SPI1_TXDATA v s =
           Inr (s\<lparr>sd_cmd := (sd_cmd s)[0 := ucast v], sd_cmd_idx := 1, sd_state := st\<rparr>)"
    and "command_buffer (s\<lparr>sd_cmd := (sd_cmd s)[0 := ucast v], sd_cmd_idx := 1,
                            sd_state := st\<rparr>) = [ucast v]"
proof -
  from assms(1) have inv: "sd_inv s" by (rule reachable_inv)
  from idle_facts[OF inv assms(2)] have i: "sd_cmd_idx s = 0" and l: "length (sd_cmd s) = 32"
    by simp_all
  from l obtain x xs where "sd_cmd s = x # xs" by (cases "sd_cmd s") auto
  then show "command_buffer (s\<lparr>sd_cmd := (sd_cmd s)[0 := ucast v], sd_cmd_idx := 1,
                            sd_state := st\<rparr>) = [ucast v]"
    by (simp add: command_buffer_def)
  show "egos_sd_write SPI1_TXDATA v s =
           Inr (s\<lparr>sd_cmd := (sd_cmd s)[0 := ucast v], sd_cmd_idx := 1, sd_state := st\<rparr>)"
    using write_opcode[OF _ assms(3), of s] assms(2) i by simp
qed

subsection \<open>The blocks of \<open>block_image\<close>\<close>

lemma block_image_block:
  "map block_image [512 * B ..< 512 * B + 512] = replicate 512 (of_nat B)"
proof (rule nth_equalityI)
  show "length (map block_image [512 * B ..< 512 * B + 512]) = length (replicate 512 (of_nat B :: 8 word))"
    by simp
next
  fix i
  assume "i < length (map block_image [512 * B ..< 512 * B + 512])"
  then have i: "i < 512" by simp
  then have "(512 * B + i) div 512 = B" by simp
  with i show "map block_image [512 * B ..< 512 * B + 512] ! i = replicate 512 (of_nat B) ! i"
    by (simp add: block_image_def)
qed

section \<open>The claims\<close>

text \<open>
  Claim C6.  A read of the incoming-data register while the state is not \<open>SD_READY\<close>
  returns \<open>0xFF\<close>; the same call moves the state to \<open>SD_READY\<close> when at least six
  command bytes have been collected, and changes nothing otherwise.  No reply byte is
  produced by this call.
\<close>

theorem read_outside_ready:
  assumes "sd_state s \<noteq> SD_READY"
  shows "egos_sd_read SPI1_RXDATA s =
         Inr (0xFF, if 6 \<le> sd_cmd_idx s then s\<lparr>sd_state := SD_READY\<rparr> else s)"
  using assms by (simp add: egos_sd_read_def)

theorem read_outside_ready_witness:
  "sd_state (sd_init zero_image) \<noteq> SD_READY
   \<and> egos_sd_read SPI1_RXDATA (sd_init zero_image) = Inr (0xFF, sd_init zero_image)
   \<and> sd_state ((sd_init zero_image)\<lparr>sd_cmd_idx := 6, sd_state := SD_GETTING_CMD17\<rparr>) \<noteq> SD_READY
   \<and> egos_sd_read SPI1_RXDATA ((sd_init zero_image)\<lparr>sd_cmd_idx := 6, sd_state := SD_GETTING_CMD17\<rparr>)
       = Inr (0xFF, (sd_init zero_image)\<lparr>sd_cmd_idx := 6, sd_state := SD_READY\<rparr>)"
  using read_outside_ready[of "sd_init zero_image"]
    read_outside_ready[of "(sd_init zero_image)\<lparr>sd_cmd_idx := 6, sd_state := SD_GETTING_CMD17\<rparr>"]
  by (simp add: sd_init_def)

text \<open>
  Claim C3 says that a 7th byte appended to \<open>command_buffer\<close> in a \<open>Receiving*\<close> state
  is fatal and that the buffer never holds more than 6 bytes.  It fails: from the initial
  state the CMD0 frame followed by one more byte is accepted, and the buffer then holds 7
  bytes.
\<close>

theorem seventh_byte_accepted:
  "map_sum id command_buffer
     (sd_writes [0x40, 0x00, 0x00, 0x00, 0x00, 0x95, 0xFF] (sd_init zero_image))
   = Inr [0x40, 0x00, 0x00, 0x00, 0x00, 0x95, 0xFF]"
  by (simp add: egos_sd_write_def sd_start_cmd_def sd_cmd_append_def command_buffer_def
      sd_init_cmd)
    (simp add: sd_init_def)

text \<open>
  Claim C3 as amended.  In a \<open>SD_GETTING_*\<close> state with \<open>sd_cmd_idx < 32\<close>, a written byte
  is stored at \<open>sd_cmd[sd_cmd_idx]\<close> and \<open>sd_cmd_idx\<close> is incremented; the write is fatal
  exactly when the incremented \<open>sd_cmd_idx\<close> is 32.  The 7th to 31st bytes are accepted.
\<close>

theorem getting_append_fatal_only_at_32:
  assumes "sd_state s \<noteq> SD_IDLE" "sd_state s \<noteq> SD_READY" "0 \<le> sd_cmd_idx s" "sd_cmd_idx s < 32"
  shows "egos_sd_write SPI1_TXDATA v s =
         (if sd_cmd_idx s + 1 = 32 then Inl Assert_Failed
          else Inr (s\<lparr>sd_cmd := (sd_cmd s)[nat (sd_cmd_idx s) := ucast v],
                      sd_cmd_idx := sd_cmd_idx s + 1\<rparr>))"
  using assms by (simp add: egos_sd_write_def sd_cmd_append_def)

theorem getting_append_fatal_only_at_32_witness:
  "sd_state ((sd_init zero_image)\<lparr>sd_cmd_idx := 6, sd_state := SD_GETTING_CMD0\<rparr>) \<noteq> SD_IDLE
   \<and> sd_state ((sd_init zero_image)\<lparr>sd_cmd_idx := 6, sd_state := SD_GETTING_CMD0\<rparr>) \<noteq> SD_READY
   \<and> 0 \<le> sd_cmd_idx ((sd_init zero_image)\<lparr>sd_cmd_idx := 6, sd_state := SD_GETTING_CMD0\<rparr>)
   \<and> sd_cmd_idx ((sd_init zero_image)\<lparr>sd_cmd_idx := 6, sd_state := SD_GETTING_CMD0\<rparr>) < 32
   \<and> map_sum id sd_cmd_idx
        (egos_sd_write SPI1_TXDATA 0xFF
           ((sd_init zero_image)\<lparr>sd_cmd_idx := 6, sd_state := SD_GETTING_CMD0\<rparr>)) = Inr 7
   \<and> egos_sd_write SPI1_TXDATA 0xFF
           ((sd_init zero_image)\<lparr>sd_cmd_idx := 31, sd_state := SD_GETTING_CMD0\<rparr>)
       = Inl Assert_Failed"
  using getting_append_fatal_only_at_32
          [of "(sd_init zero_image)\<lparr>sd_cmd_idx := 6, sd_state := SD_GETTING_CMD0\<rparr>" "0xFF"]
        getting_append_fatal_only_at_32
          [of "(sd_init zero_image)\<lparr>sd_cmd_idx := 31, sd_state := SD_GETTING_CMD0\<rparr>" "0xFF"]
  by (simp add: sd_init_def)

text \<open>
  Claim C4.  A recognised opcode written in \<open>Idle\<close> or \<open>Ready\<close> is to leave
  \<open>command_buffer\<close> holding exactly that opcode, with \<open>command_length = 1\<close>.  In \<open>SD_IDLE\<close>
  the source does so (lemma \<open>opcode_write_in_idle\<close>).  In \<open>SD_READY\<close> it does not: every
  case of the switch stores the opcode at \<open>sd_cmd[sd_cmd_idx++]\<close> (lines 329 to 356) and
  nothing resets \<open>sd_cmd_idx\<close>, which is at least 6 there.  Evaluated from the initial
  state: after a CMD0 frame and the read that enters \<open>SD_READY\<close>, the write of \<open>0x48\<close> sets
  \<open>SD_GETTING_CMD8\<close> and leaves a buffer of 7 bytes that still starts with the CMD0 frame;
  a whole CMD8 frame written there is answered with the reply \<open>0x01\<close> of CMD0; and with
  31 bytes collected the opcode write takes \<open>sd_cmd_idx\<close> to 32 without the \<open>assert\<close> of
  the append path (line 324), so that the next byte is stored at \<open>sd_cmd[32]\<close>.
\<close>

theorem opcode_write_in_ready_no_reset:
  "map_sum id (command_buffer \<circ> snd)
     (sd_exchanges [([0x40, 0x00, 0x00, 0x00, 0x00, 0x95], 1), ([0x48], 0)] (sd_init zero_image))
   = Inr [0x40, 0x00, 0x00, 0x00, 0x00, 0x95, 0x48]
   \<and> map_sum id (sd_state \<circ> snd)
     (sd_exchanges [([0x40, 0x00, 0x00, 0x00, 0x00, 0x95], 1), ([0x48], 0)] (sd_init zero_image))
   = Inr SD_GETTING_CMD8
   \<and> map_sum id fst
     (sd_exchanges [([0x40, 0x00, 0x00, 0x00, 0x00, 0x95], 1),
                    ([0x48, 0x00, 0x00, 0x01, 0xAA, 0x87], 3)] (sd_init zero_image))
   = Inr [0xFF, 0xFF, 0x01, 0xFF]
   \<and> map_sum id (sd_cmd_idx \<circ> snd)
     (sd_exchanges [([0x40, 0xFF, 0xFF, 0xFF, 0xFF, 0xFF, 0xFF, 0xFF, 0xFF, 0xFF, 0xFF,
                      0xFF, 0xFF, 0xFF, 0xFF, 0xFF, 0xFF, 0xFF, 0xFF, 0xFF, 0xFF,
                      0xFF, 0xFF, 0xFF, 0xFF, 0xFF, 0xFF, 0xFF, 0xFF, 0xFF, 0xFF], 1),
                    ([0x48], 0)] (sd_init zero_image))
   = Inr 32
   \<and> sd_exchanges [([0x40, 0xFF, 0xFF, 0xFF, 0xFF, 0xFF, 0xFF, 0xFF, 0xFF, 0xFF, 0xFF,
                      0xFF, 0xFF, 0xFF, 0xFF, 0xFF, 0xFF, 0xFF, 0xFF, 0xFF, 0xFF,
                      0xFF, 0xFF, 0xFF, 0xFF, 0xFF, 0xFF, 0xFF, 0xFF, 0xFF, 0xFF], 1),
                    ([0x48, 0x00], 0)] (sd_init zero_image)
   = Inl (Out_Of_Bounds SD_CMD 32)"
proof -
  have a: "map_sum id (command_buffer \<circ> snd)
     (sd_exchanges [([0x40, 0x00, 0x00, 0x00, 0x00, 0x95], 1), ([0x48], 0)] (sd_init zero_image))
   = Inr [0x40, 0x00, 0x00, 0x00, 0x00, 0x95, 0x48]"
    by (simp add: sd_exchange_def egos_sd_write_def sd_start_cmd_def sd_cmd_append_def
        egos_sd_read_def command_buffer_def sd_init_cmd)
      (simp add: sd_init_def)
  have b: "map_sum id (sd_state \<circ> snd)
     (sd_exchanges [([0x40, 0x00, 0x00, 0x00, 0x00, 0x95], 1), ([0x48], 0)] (sd_init zero_image))
   = Inr SD_GETTING_CMD8"
    by (simp add: sd_exchange_def egos_sd_write_def sd_start_cmd_def sd_cmd_append_def
        egos_sd_read_def sd_init_simps)
  have c: "map_sum id fst
     (sd_exchanges [([0x40, 0x00, 0x00, 0x00, 0x00, 0x95], 1),
                    ([0x48, 0x00, 0x00, 0x01, 0xAA, 0x87], 3)] (sd_init zero_image))
   = Inr [0xFF, 0xFF, 0x01, 0xFF]"
    by (simp add: sd_exchange_def egos_sd_write_def sd_start_cmd_def sd_cmd_append_def
        egos_sd_read_def sd_switch_def sd_chain_def sd_init_explicit numeral_3_eq_3)
  have d: "map_sum id (sd_cmd_idx \<circ> snd)
     (sd_exchanges [([0x40, 0xFF, 0xFF, 0xFF, 0xFF, 0xFF, 0xFF, 0xFF, 0xFF, 0xFF, 0xFF,
                      0xFF, 0xFF, 0xFF, 0xFF, 0xFF, 0xFF, 0xFF, 0xFF, 0xFF, 0xFF,
                      0xFF, 0xFF, 0xFF, 0xFF, 0xFF, 0xFF, 0xFF, 0xFF, 0xFF, 0xFF], 1),
                    ([0x48], 0)] (sd_init zero_image))
   = Inr 32"
    by (simp add: sd_exchange_def egos_sd_write_def sd_start_cmd_def sd_cmd_append_def
        egos_sd_read_def sd_init_simps)
  have e: "sd_exchanges [([0x40, 0xFF, 0xFF, 0xFF, 0xFF, 0xFF, 0xFF, 0xFF, 0xFF, 0xFF, 0xFF,
                      0xFF, 0xFF, 0xFF, 0xFF, 0xFF, 0xFF, 0xFF, 0xFF, 0xFF, 0xFF,
                      0xFF, 0xFF, 0xFF, 0xFF, 0xFF, 0xFF, 0xFF, 0xFF, 0xFF, 0xFF], 1),
                    ([0x48, 0x00], 0)] (sd_init zero_image)
   = Inl (Out_Of_Bounds SD_CMD 32)"
    by (simp add: sd_exchange_def egos_sd_write_def sd_start_cmd_def sd_cmd_append_def
        egos_sd_read_def sd_init_simps)
  from a b c d e show ?thesis by blast
qed

text \<open>
  Claim C5.  From a reachable \<open>SD_IDLE\<close> state, after a CMD8 frame (any argument and
  trailer bytes) and the read that enters \<open>SD_READY\<close> (which returns \<open>0xFF\<close>, see C6), the
  five reply reads return \<open>0x01, 0x00, 0x00, 0x01, 0xAA\<close>; after a CMD58 frame they return
  \<open>0x00, 0xC0, 0xFF, 0x80, 0x00\<close>.  In each case the state is still \<open>SD_READY\<close> after the
  4th reply byte and is \<open>SD_IDLE\<close>, with \<open>sd_cmd_idx = 0\<close> and the cursor back at 0, after
  the 5th.
\<close>

theorem cmd8_cmd58_replies:
  assumes "reachable s" "sd_state s = SD_IDLE"
  shows "sd_exchange [0x48, v1, v2, v3, v4, v5] 5 s =
           Inr ([0xFF, 0x01, 0x00, 0x00, 0x01],
                s\<lparr>sd_cmd := (sd_cmd s)[0 := 0x48, 1 := ucast v1, 2 := ucast v2,
                                        3 := ucast v3, 4 := ucast v4, 5 := ucast v5],
                   sd_cmd_idx := 6, sd_state := SD_READY,
                   block_to_read := (block_to_read s)[0 := 0xFE], cmd8_idx := 4\<rparr>)
       \<and> sd_exchange [0x48, v1, v2, v3, v4, v5] 6 s =
           Inr ([0xFF, 0x01, 0x00, 0x00, 0x01, 0xAA],
                s\<lparr>sd_cmd := (sd_cmd s)[0 := 0x48, 1 := ucast v1, 2 := ucast v2,
                                        3 := ucast v3, 4 := ucast v4, 5 := ucast v5],
                   block_to_read := (block_to_read s)[0 := 0xFE], cmd8_idx := 0,
                   sd_cmd_idx := 0, sd_state := SD_IDLE\<rparr>)
       \<and> sd_exchange [0x7A, w1, w2, w3, w4, w5] 5 s =
           Inr ([0xFF, 0x00, 0xC0, 0xFF, 0x80],
                s\<lparr>sd_cmd := (sd_cmd s)[0 := 0x7A, 1 := ucast w1, 2 := ucast w2,
                                        3 := ucast w3, 4 := ucast w4, 5 := ucast w5],
                   sd_cmd_idx := 6, sd_state := SD_READY,
                   block_to_read := (block_to_read s)[0 := 0xFE], cmd58_idx := 4\<rparr>)
       \<and> sd_exchange [0x7A, w1, w2, w3, w4, w5] 6 s =
           Inr ([0xFF, 0x00, 0xC0, 0xFF, 0x80, 0x00],
                s\<lparr>sd_cmd := (sd_cmd s)[0 := 0x7A, 1 := ucast w1, 2 := ucast w2,
                                        3 := ucast w3, 4 := ucast w4, 5 := ucast w5],
                   block_to_read := (block_to_read s)[0 := 0xFE], cmd58_idx := 0,
                   sd_cmd_idx := 0, sd_state := SD_IDLE\<rparr>)"
proof -
  from assms have inv: "sd_inv s" by (simp add: reachable_inv)
  note idle = idle_facts[OF inv assms(2)]
  have g8: "getting_state 0x48 = Some SD_GETTING_CMD8"
    and g58: "getting_state 0x7A = Some SD_GETTING_CMD58"
    by (simp_all add: getting_state_def)
  let ?s8 = "s\<lparr>sd_cmd := (sd_cmd s)[0 := 0x48, 1 := ucast v1, 2 := ucast v2,
                                        3 := ucast v3, 4 := ucast v4, 5 := ucast v5],
                   sd_cmd_idx := 6, sd_state := SD_READY\<rparr>"
  let ?s58 = "s\<lparr>sd_cmd := (sd_cmd s)[0 := 0x7A, 1 := ucast w1, 2 := ucast w2,
                                        3 := ucast w3, 4 := ucast w4, 5 := ucast w5],
                   sd_cmd_idx := 6, sd_state := SD_READY\<rparr>"
  have p8: "sd_state ?s8 = SD_READY" "sd_cmd ?s8 ! 0 = 0x48" "cmd8_idx ?s8 = 0"
    using idle by (simp_all add: frame_nth)
  have p58: "sd_state ?s58 = SD_READY" "sd_cmd ?s58 ! 0 = 0x7A" "cmd58_idx ?s58 = 0"
    using idle by (simp_all add: frame_nth)
  have a: "sd_exchange [0x48, v1, v2, v3, v4, v5] 5 s =
           Inr ([0xFF, 0x01, 0x00, 0x00, 0x01],
                ?s8\<lparr>block_to_read := (block_to_read s)[0 := 0xFE], cmd8_idx := 4\<rparr>)"
    using cmd8_reads4[OF p8]
    by (simp add: sd_exchange_frame_pred[OF assms(2) idle(1) g8])
  have b: "sd_exchange [0x48, v1, v2, v3, v4, v5] 6 s =
           Inr ([0xFF, 0x01, 0x00, 0x00, 0x01, 0xAA],
                s\<lparr>sd_cmd := (sd_cmd s)[0 := 0x48, 1 := ucast v1, 2 := ucast v2,
                                        3 := ucast v3, 4 := ucast v4, 5 := ucast v5],
                   block_to_read := (block_to_read s)[0 := 0xFE], cmd8_idx := 0,
                   sd_cmd_idx := 0, sd_state := SD_IDLE\<rparr>)"
    using cmd8_reads5[OF p8]
    by (simp add: sd_exchange_frame_pred[OF assms(2) idle(1) g8])
  have c: "sd_exchange [0x7A, w1, w2, w3, w4, w5] 5 s =
           Inr ([0xFF, 0x00, 0xC0, 0xFF, 0x80],
                ?s58\<lparr>block_to_read := (block_to_read s)[0 := 0xFE], cmd58_idx := 4\<rparr>)"
    using cmd58_reads4[OF p58]
    by (simp add: sd_exchange_frame_pred[OF assms(2) idle(1) g58])
  have d: "sd_exchange [0x7A, w1, w2, w3, w4, w5] 6 s =
           Inr ([0xFF, 0x00, 0xC0, 0xFF, 0x80, 0x00],
                s\<lparr>sd_cmd := (sd_cmd s)[0 := 0x7A, 1 := ucast w1, 2 := ucast w2,
                                        3 := ucast w3, 4 := ucast w4, 5 := ucast w5],
                   block_to_read := (block_to_read s)[0 := 0xFE], cmd58_idx := 0,
                   sd_cmd_idx := 0, sd_state := SD_IDLE\<rparr>)"
    using cmd58_reads5[OF p58]
    by (simp add: sd_exchange_frame_pred[OF assms(2) idle(1) g58])
  from a b c d show ?thesis
    by simp
qed

theorem cmd8_cmd58_replies_witness:
  "reachable (sd_init zero_image) \<and> sd_state (sd_init zero_image) = SD_IDLE
   \<and> map_sum id fst (sd_exchange [0x48, 0x00, 0x00, 0x01, 0xAA, 0x87] 6 (sd_init zero_image))
       = Inr [0xFF, 0x01, 0x00, 0x00, 0x01, 0xAA]
   \<and> map_sum id (sd_state \<circ> snd)
        (sd_exchange [0x48, 0x00, 0x00, 0x01, 0xAA, 0x87] 6 (sd_init zero_image)) = Inr SD_IDLE
   \<and> map_sum id fst (sd_exchange [0x7A, 0x00, 0x00, 0x00, 0x00, 0xFF] 6 (sd_init zero_image))
       = Inr [0xFF, 0x00, 0xC0, 0xFF, 0x80, 0x00]
   \<and> map_sum id (sd_state \<circ> snd)
        (sd_exchange [0x7A, 0x00, 0x00, 0x00, 0x00, 0xFF] 6 (sd_init zero_image)) = Inr SD_IDLE"
  using cmd8_cmd58_replies[OF reachable_init, of zero_image "0x00" "0x00" "0x01" "0xAA" "0x87"
      "0x00" "0x00" "0x00" "0x00" "0xFF"]
    reachable_init[of zero_image]
  by (simp add: sd_init_simps)

text \<open>
  Claim C8.  From a reachable \<open>SD_IDLE\<close> state, two consecutive CMD0 exchanges (a 6-byte
  frame, the read that enters \<open>SD_READY\<close>, the reply read) both yield the reply \<open>0x01\<close>.
  After each exchange the state is \<open>SD_IDLE\<close>, \<open>sd_cmd_idx\<close> is 0 and \<open>command_buffer\<close>
  is empty, as before the exchange, and the reply cursors and the storage are unchanged.
  \<open>command_buffer\<close> is the buffer of the specification, the first \<open>sd_cmd_idx\<close> bytes of
  \<open>sd_cmd\<close>; the array itself keeps the bytes of the last frame beyond that length.  When
  both frames carry the same bytes, the whole device state after the second exchange is
  the state after the first.
\<close>

theorem cmd0_twice:
  assumes "reachable s" "sd_state s = SD_IDLE"
  shows "\<exists>s1 s2.
           sd_exchange [0x40, v1, v2, v3, v4, v5] 2 s = Inr ([0xFF, 0x01], s1)
         \<and> sd_exchange [0x40, w1, w2, w3, w4, w5] 2 s1 = Inr ([0xFF, 0x01], s2)
         \<and> sd_exchanges [([0x40, v1, v2, v3, v4, v5], 2), ([0x40, w1, w2, w3, w4, w5], 2)] s
             = Inr ([0xFF, 0x01, 0xFF, 0x01], s2)
         \<and> sd_state s1 = SD_IDLE \<and> sd_cmd_idx s1 = 0 \<and> command_buffer s1 = []
         \<and> sd_state s2 = SD_IDLE \<and> sd_cmd_idx s2 = 0 \<and> command_buffer s2 = []
         \<and> sd_state s = SD_IDLE \<and> sd_cmd_idx s = 0 \<and> command_buffer s = []
         \<and> cmd8_idx s1 = cmd8_idx s \<and> cmd58_idx s1 = cmd58_idx s \<and> cmd17_idx s1 = cmd17_idx s
         \<and> cmd8_idx s2 = cmd8_idx s \<and> cmd58_idx s2 = cmd58_idx s \<and> cmd17_idx s2 = cmd17_idx s
         \<and> sd_storage s2 = sd_storage s
         \<and> ((ucast w1 :: 8 word) = ucast v1 \<and> (ucast w2 :: 8 word) = ucast v2
              \<and> (ucast w3 :: 8 word) = ucast v3 \<and> (ucast w4 :: 8 word) = ucast v4
              \<and> (ucast w5 :: 8 word) = ucast v5 \<longrightarrow> s2 = s1)"
proof -
  from assms have inv: "sd_inv s" by (simp add: reachable_inv)
  note idle = idle_facts[OF inv assms(2)]
  let ?s1 = "s\<lparr>sd_cmd := (sd_cmd s)[0 := 0x40, 1 := ucast v1, 2 := ucast v2,
                                      3 := ucast v3, 4 := ucast v4, 5 := ucast v5],
                 block_to_read := (block_to_read s)[0 := 0xFE],
                 sd_cmd_idx := 0, sd_state := SD_IDLE\<rparr>"
  let ?s2 = "?s1\<lparr>sd_cmd := (sd_cmd ?s1)[0 := 0x40, 1 := ucast w1, 2 := ucast w2,
                                      3 := ucast w3, 4 := ucast w4, 5 := ucast w5],
                 block_to_read := (block_to_read ?s1)[0 := 0xFE],
                 sd_cmd_idx := 0, sd_state := SD_IDLE\<rparr>"
  have e1: "sd_exchange [0x40, v1, v2, v3, v4, v5] 2 s = Inr ([0xFF, 0x01], ?s1)"
    using idle by (intro cmd0_exchange) (simp_all add: assms(2))
  have e2: "sd_exchange [0x40, w1, w2, w3, w4, w5] 2 ?s1 = Inr ([0xFF, 0x01], ?s2)"
    using idle by (intro cmd0_exchange) simp_all
  have e12: "sd_exchanges [([0x40, v1, v2, v3, v4, v5], 2), ([0x40, w1, w2, w3, w4, w5], 2)] s
             = Inr ([0xFF, 0x01, 0xFF, 0x01], ?s2)"
    by (simp only: sd_exchanges.simps e1 e2 sum.case prod.case) simp
  have "command_buffer ?s1 = []" "command_buffer ?s2 = []" "command_buffer s = []"
    using idle by (simp_all add: command_buffer_def)
  moreover have "?s2 = ?s1"
    if "(ucast w1 :: 8 word) = ucast v1 \<and> (ucast w2 :: 8 word) = ucast v2
              \<and> (ucast w3 :: 8 word) = ucast v3 \<and> (ucast w4 :: 8 word) = ucast v4
              \<and> (ucast w5 :: 8 word) = ucast v5"
    using that by (simp add: frame_update_twice)
  ultimately show ?thesis
    using e1 e2 e12 idle assms(2)
    by (intro exI[of _ ?s1] exI[of _ ?s2]) simp
qed

theorem cmd0_twice_witness:
  "reachable (sd_init zero_image) \<and> sd_state (sd_init zero_image) = SD_IDLE
   \<and> map_sum id fst
        (sd_exchanges [([0x40, 0x00, 0x00, 0x00, 0x00, 0x95], 2),
                       ([0x40, 0x00, 0x00, 0x00, 0x00, 0x95], 2)] (sd_init zero_image))
       = Inr [0xFF, 0x01, 0xFF, 0x01]
   \<and> map_sum id (sd_state \<circ> snd)
        (sd_exchanges [([0x40, 0x00, 0x00, 0x00, 0x00, 0x95], 2),
                       ([0x40, 0x00, 0x00, 0x00, 0x00, 0x95], 2)] (sd_init zero_image))
       = Inr SD_IDLE
   \<and> map_sum id (command_buffer \<circ> snd)
        (sd_exchanges [([0x40, 0x00, 0x00, 0x00, 0x00, 0x95], 2),
                       ([0x40, 0x00, 0x00, 0x00, 0x00, 0x95], 2)] (sd_init zero_image))
       = Inr []
   \<and> map_sum id snd
        (sd_exchanges [([0x40, 0x00, 0x00, 0x00, 0x00, 0x95], 2),
                       ([0x40, 0x00, 0x00, 0x00, 0x00, 0x95], 2)] (sd_init zero_image))
       = map_sum id snd (sd_exchange [0x40, 0x00, 0x00, 0x00, 0x00, 0x95] 2 (sd_init zero_image))"
proof -
  from cmd0_twice[OF reachable_init, of zero_image "0x00" "0x00" "0x00" "0x00" "0x95"
      "0x00" "0x00" "0x00" "0x00" "0x95"]
  obtain s1 s2 where
    "sd_exchange [0x40, 0x00, 0x00, 0x00, 0x00, 0x95] 2 (sd_init zero_image) = Inr ([0xFF, 0x01], s1)"
    "sd_exchanges [([0x40, 0x00, 0x00, 0x00, 0x00, 0x95], 2),
                   ([0x40, 0x00, 0x00, 0x00, 0x00, 0x95], 2)] (sd_init zero_image)
       = Inr ([0xFF, 0x01, 0xFF, 0x01], s2)"
    "sd_state s2 = SD_IDLE" "command_buffer s2 = []" "s2 = s1"
    by (auto simp: sd_init_simps)
  then show ?thesis
    using reachable_init[of zero_image] by (simp add: sd_init_simps)
qed

text \<open>
  Claim C10.  In every state reachable through the two handlers, \<open>cmd17_idx\<close> is \<open>-1\<close> or
  lies in \<open>0..512\<close>, the staging buffer \<open>block_to_read\<close> has its 513 bytes, and no read
  of any register accesses \<open>block_to_read\<close> outside its bounds.  (The model stops at the
  first fatal path or out-of-bounds access, so the reachable states are those of the
  runs on which C has defined behaviour.)
\<close>

theorem cmd17_idx_bounds:
  assumes "reachable s"
  shows "(cmd17_idx s = - 1 \<or> (0 \<le> cmd17_idx s \<and> cmd17_idx s \<le> 512))
       \<and> length (block_to_read s) = 513
       \<and> (\<forall>addr i. egos_sd_read addr s \<noteq> Inl (Out_Of_Bounds BLOCK_TO_READ i))"
proof -
  from assms have inv: "sd_inv s" by (rule reachable_inv)
  then have "- 1 \<le> cmd17_idx s" "cmd17_idx s \<le> 512" "length (block_to_read s) = 513"
    unfolding sd_inv_def by simp_all
  moreover have "egos_sd_read addr s \<noteq> Inl (Out_Of_Bounds BLOCK_TO_READ i)" for addr i
    using read_error_cases[OF inv, of addr "Out_Of_Bounds BLOCK_TO_READ i"] by auto
  ultimately show ?thesis by auto
qed

theorem cmd17_idx_bounds_witness:
  "reachable (sd_init zero_image)
   \<and> cmd17_idx (sd_init zero_image) = - 1
   \<and> reachable ((sd_init zero_image)
          \<lparr>sd_cmd := (sd_cmd (sd_init zero_image))
                        [0 := 0x51, 1 := 0x00, 2 := 0x00, 3 := 0x00, 4 := 0x01, 5 := 0xFF],
           sd_cmd_idx := 6, sd_state := SD_READY,
           block_to_read := 0xFE # map zero_image [512 ..< 1024], cmd17_idx := 2\<rparr>)
   \<and> egos_sd_read SPI1_RXDATA ((sd_init zero_image)
          \<lparr>sd_cmd := (sd_cmd (sd_init zero_image))
                        [0 := 0x51, 1 := 0x00, 2 := 0x00, 3 := 0x00, 4 := 0x01, 5 := 0xFF],
           sd_cmd_idx := 6, sd_state := SD_READY,
           block_to_read := 0xFE # map zero_image [512 ..< 1024], cmd17_idx := 2\<rparr>)
       \<noteq> Inl (Out_Of_Bounds BLOCK_TO_READ 2)"
proof -
  let ?r = "(sd_init zero_image)
          \<lparr>sd_cmd := (sd_cmd (sd_init zero_image))
                        [0 := 0x51, 1 := 0x00, 2 := 0x00, 3 := 0x00, 4 := 0x01, 5 := 0xFF],
           sd_cmd_idx := 6, sd_state := SD_READY\<rparr>"
  have g: "getting_state 0x51 = Some SD_GETTING_CMD17"
    by (simp add: getting_state_def)
  have r: "reachable ?r"
    using reachable_frame_ready[OF reachable_init _ g, of zero_image "0x00" "0x00" "0x00" "0x01" "0xFF"]
    by (simp add: sd_init_simps)
  have off: "cmd17_offset ((sd_cmd (sd_init zero_image))
                        [0 := 0x51, Suc 0 := 0x00, 2 := 0x00, 3 := 0x00, 4 := 0x01, 5 := 0xFF]) = 512"
    by (simp add: cmd17_frame_offset sd_init_simps cmd17_offset_examples)
  have "reachable (?r\<lparr>block_to_read := cmd17_staged ?r, cmd17_idx := int 2\<rparr>)"
    using r by (rule reachable_cmd17_mid)
      (simp_all add: frame_nth sd_init_simps cmd17_in_range_def off)
  then have m: "reachable (?r\<lparr>block_to_read := 0xFE # map zero_image [512 ..< 1024], cmd17_idx := 2\<rparr>)"
    by (simp add: cmd17_staged_def off sd_init_simps)
  from cmd17_idx_bounds[OF reachable_init, of zero_image] cmd17_idx_bounds[OF m] m
    reachable_init[of zero_image]
  show ?thesis
    by (simp add: sd_init_simps)
qed

text \<open>
  Claim C7.  For all bytes in \<open>sd_cmd[1..4]\<close>, including bytes from \<open>0x80\<close> up, the
  \<open>block_no\<close> that the source computes has, as a 32-bit value, the big-endian value of
  the four bytes, byte 1 most significant; and the first dispatch of a completed CMD17
  frame (state \<open>SD_READY\<close>, \<open>sd_cmd[0] = 0x51\<close>, \<open>cmd17_idx = -1\<close>) copies from the byte
  offset \<open>block_no * 512\<close>, the product taken in 32-bit \<open>int\<close> arithmetic.
\<close>

theorem cmd17_block_no_big_endian:
  "unat (cmd17_block_no cmd) = be32 (cmd ! 1) (cmd ! 2) (cmd ! 3) (cmd ! 4)
   \<and> be32 (cmd ! 1) (cmd ! 2) (cmd ! 3) (cmd ! 4)
       = 16777216 * unat (cmd ! 1) + 65536 * unat (cmd ! 2) + 256 * unat (cmd ! 3) + unat (cmd ! 4)
   \<and> (reachable s \<and> sd_state s = SD_READY \<and> sd_cmd s ! 0 = 0x51 \<and> cmd17_idx s = - 1 \<longrightarrow>
        egos_sd_read SPI1_RXDATA s =
          (if 0 \<le> sint (cmd17_block_no (sd_cmd s) * 512)
              \<and> sint (cmd17_block_no (sd_cmd s) * 512) + 512 \<le> 4194304
           then Inr (0x00,
                     s\<lparr>block_to_read :=
                          0xFE # map (sd_storage s)
                                   [nat (sint (cmd17_block_no (sd_cmd s) * 512)) ..<
                                    nat (sint (cmd17_block_no (sd_cmd s) * 512)) + 512],
                        cmd17_idx := 0\<rparr>)
           else Inl (Out_Of_Bounds SD_STORAGE (sint (cmd17_block_no (sd_cmd s) * 512)))))"
proof -
  have "egos_sd_read SPI1_RXDATA s =
          (if 0 \<le> sint (cmd17_block_no (sd_cmd s) * 512)
              \<and> sint (cmd17_block_no (sd_cmd s) * 512) + 512 \<le> 4194304
           then Inr (0x00,
                     s\<lparr>block_to_read :=
                          0xFE # map (sd_storage s)
                                   [nat (sint (cmd17_block_no (sd_cmd s) * 512)) ..<
                                    nat (sint (cmd17_block_no (sd_cmd s) * 512)) + 512],
                        cmd17_idx := 0\<rparr>)
           else Inl (Out_Of_Bounds SD_STORAGE (sint (cmd17_block_no (sd_cmd s) * 512))))"
    if "reachable s" "sd_state s = SD_READY" "sd_cmd s ! 0 = 0x51" "cmd17_idx s = - 1"
    using read_ready_cmd17_first[OF that(2,3,4) ready_facts(2)[OF that(1)]]
    by (simp add: cmd17_in_range_def cmd17_staged_def cmd17_offset_def)
  then show ?thesis
    using unat_block_no[of cmd] by (simp add: be32_def)
qed

theorem cmd17_block_no_big_endian_witness:
  "unat (cmd17_block_no [0x51, 0x80, 0x81, 0x82, 0x83, 0xFF]) = 2155971203
   \<and> reachable ((sd_init zero_image)
          \<lparr>sd_cmd := (sd_cmd (sd_init zero_image))
                        [0 := 0x51, 1 := 0x00, 2 := 0x00, 3 := 0x1F, 4 := 0xFF, 5 := 0xFF],
           sd_cmd_idx := 6, sd_state := SD_READY\<rparr>)
   \<and> egos_sd_read SPI1_RXDATA ((sd_init zero_image)
          \<lparr>sd_cmd := (sd_cmd (sd_init zero_image))
                        [0 := 0x51, 1 := 0x00, 2 := 0x00, 3 := 0x1F, 4 := 0xFF, 5 := 0xFF],
           sd_cmd_idx := 6, sd_state := SD_READY\<rparr>)
       = Inr (0x00, (sd_init zero_image)
          \<lparr>sd_cmd := (sd_cmd (sd_init zero_image))
                        [0 := 0x51, 1 := 0x00, 2 := 0x00, 3 := 0x1F, 4 := 0xFF, 5 := 0xFF],
           sd_cmd_idx := 6, sd_state := SD_READY,
           block_to_read := 0xFE # map zero_image [4193792 ..< 4194304], cmd17_idx := 0\<rparr>)"
proof -
  let ?r = "(sd_init zero_image)
          \<lparr>sd_cmd := (sd_cmd (sd_init zero_image))
                        [0 := 0x51, 1 := 0x00, 2 := 0x00, 3 := 0x1F, 4 := 0xFF, 5 := 0xFF],
           sd_cmd_idx := 6, sd_state := SD_READY\<rparr>"
  have g: "getting_state 0x51 = Some SD_GETTING_CMD17"
    by (simp add: getting_state_def)
  have r: "reachable ?r"
    using reachable_frame_ready[OF reachable_init _ g, of zero_image "0x00" "0x00" "0x1F" "0xFF" "0xFF"]
    by (simp add: sd_init_simps)
  have "cmd17_offset ((sd_cmd (sd_init zero_image))
                        [0 := 0x51, Suc 0 := 0x00, 2 := 0x00, 3 := 0x1F, 4 := 0xFF, 5 := 0xFF])
        = 4193792"
    by (simp add: cmd17_frame_offset sd_init_simps cmd17_offset_examples)
  note off = this[unfolded cmd17_offset_def]
  from cmd17_block_no_big_endian[of "[0x51, 0x80, 0x81, 0x82, 0x83, 0xFF]" ?r] r
  show ?thesis
    by (simp add: be32_def frame_nth sd_init_simps off)
qed

text \<open>
  Claim C9.  In a reachable \<open>SD_READY\<close> state holding a CMD17 frame, with no transfer in
  progress, let \<open>B\<close> be the big-endian value of \<open>sd_cmd[1..4]\<close> and let \<open>B < 8192\<close>, so
  that block \<open>B\<close> lies in the store.  The first read returns \<open>0x00\<close> and only stages the
  block: \<open>block_to_read\<close> becomes the start token followed by
  \<open>sd_storage[512 * B .. 512 * B + 511]\<close>, the state stays \<open>SD_READY\<close> and \<open>cmd17_idx\<close>
  becomes 0.  The second read returns the start token \<open>0xFE\<close>.  Any number \<open>k < 514\<close> of
  reads returns the first \<open>k\<close> bytes of \<open>0x00\<close>, \<open>0xFE\<close>, block \<open>B\<close> and leaves the state
  \<open>SD_READY\<close>; 514 reads return all of them, after which the state is \<open>SD_IDLE\<close> with
  \<open>sd_cmd_idx = 0\<close> and \<open>cmd17_idx = -1\<close>.
\<close>

theorem cmd17_ack_then_token:
  assumes "reachable s" "sd_state s = SD_READY" "sd_cmd s ! 0 = 0x51" "cmd17_idx s = - 1"
    "be32 (sd_cmd s ! 1) (sd_cmd s ! 2) (sd_cmd s ! 3) (sd_cmd s ! 4) = B" "B < 8192"
  shows "egos_sd_read SPI1_RXDATA s =
           Inr (0x00, s\<lparr>block_to_read := 0xFE # map (sd_storage s) [512 * B ..< 512 * B + 512],
                          cmd17_idx := 0\<rparr>)
       \<and> egos_sd_read SPI1_RXDATA
             (s\<lparr>block_to_read := 0xFE # map (sd_storage s) [512 * B ..< 512 * B + 512],
                cmd17_idx := 0\<rparr>) =
           Inr (0xFE, s\<lparr>block_to_read := 0xFE # map (sd_storage s) [512 * B ..< 512 * B + 512],
                          cmd17_idx := 1\<rparr>)
       \<and> (\<forall>k<514. \<exists>s'. sd_reads k s =
                          Inr (take k (0x00 # 0xFE #
                                 map (\<lambda>i. ucast (sd_storage s i)) [512 * B ..< 512 * B + 512]), s')
                        \<and> sd_state s' = SD_READY)
       \<and> sd_reads 514 s =
           Inr (0x00 # 0xFE # map (\<lambda>i. ucast (sd_storage s i)) [512 * B ..< 512 * B + 512],
                s\<lparr>block_to_read := 0xFE # map (sd_storage s) [512 * B ..< 512 * B + 512],
                   cmd17_idx := - 1, sd_cmd_idx := 0, sd_state := SD_IDLE\<rparr>)"
proof -
  note len = ready_facts(2)[OF assms(1)]
  let ?blk = "0xFE # map (sd_storage s) [512 * B ..< 512 * B + 512]"
  let ?data = "map (\<lambda>i. ucast (sd_storage s i) :: 64 word) [512 * B ..< 512 * B + 512]"
  have off: "cmd17_offset (sd_cmd s) = 512 * int B"
    using cmd17_offset_be32[of "sd_cmd s"] assms(5,6) by simp
  have ir: "cmd17_in_range s"
    using assms(6) by (simp add: cmd17_in_range_def off)
  have nat_off: "nat (512 * int B) = 512 * B" by simp
  have st: "cmd17_staged s = ?blk"
    by (simp add: cmd17_staged_def off nat_off)
  have mu: "map ucast ?blk = (0xFE :: 64 word) # ?data"
    by (simp add: comp_def)
  have first: "egos_sd_read SPI1_RXDATA s = Inr (0x00, s\<lparr>block_to_read := ?blk, cmd17_idx := 0\<rparr>)"
    using assms(2,3,4) ir by (simp add: read_ready_cmd17_first len st)
  have second: "egos_sd_read SPI1_RXDATA (s\<lparr>block_to_read := ?blk, cmd17_idx := 0\<rparr>) =
           Inr (0xFE, s\<lparr>block_to_read := ?blk, cmd17_idx := 1\<rparr>)"
    using assms(2,3) read_ready_cmd17_next[of "s\<lparr>block_to_read := ?blk, cmd17_idx := 0\<rparr>"]
    by simp
  have during: "\<exists>s'. sd_reads k s = Inr (take k (0x00 # 0xFE # ?data), s') \<and> sd_state s' = SD_READY"
    if "k < 514" for k
  proof (cases k)
    case 0
    with assms(2) show ?thesis by simp
  next
    case (Suc j)
    with that have j: "j \<le> 512" by simp
    have "map (\<lambda>i. ucast (?blk ! i) :: 64 word) [0 ..< j] = map ucast (take j ?blk)"
      using j by (intro nth_equalityI) simp_all
    also have "\<dots> = take j (map ucast ?blk)" by (simp only: take_map)
    finally have "map (\<lambda>i. ucast (?blk ! i) :: 64 word) [0 ..< j] = take j (0xFE # ?data)"
      unfolding mu .
    with cmd17_prefix[OF assms(2,3) len assms(4) ir j] assms(2) show ?thesis
      unfolding Suc st by simp
  qed
  from cmd17_transfer[OF assms(2,3) len assms(4) ir]
  have all: "sd_reads 514 s =
           Inr (0x00 # 0xFE # ?data,
                s\<lparr>block_to_read := ?blk, cmd17_idx := - 1, sd_cmd_idx := 0, sd_state := SD_IDLE\<rparr>)"
    unfolding st mu .
  from first second during all show ?thesis by blast
qed

theorem cmd17_ack_then_token_witness:
  "reachable ((sd_init block_image)
          \<lparr>sd_cmd := (sd_cmd (sd_init block_image))
                        [0 := 0x51, 1 := 0x00, 2 := 0x00, 3 := 0x00, 4 := 0x03, 5 := 0xFF],
           sd_cmd_idx := 6, sd_state := SD_READY\<rparr>)
   \<and> be32 0x00 0x00 0x00 0x03 = 3 \<and> (3::nat) < 8192
   \<and> egos_sd_read SPI1_RXDATA ((sd_init block_image)
          \<lparr>sd_cmd := (sd_cmd (sd_init block_image))
                        [0 := 0x51, 1 := 0x00, 2 := 0x00, 3 := 0x00, 4 := 0x03, 5 := 0xFF],
           sd_cmd_idx := 6, sd_state := SD_READY\<rparr>)
       = Inr (0x00, (sd_init block_image)
          \<lparr>sd_cmd := (sd_cmd (sd_init block_image))
                        [0 := 0x51, 1 := 0x00, 2 := 0x00, 3 := 0x00, 4 := 0x03, 5 := 0xFF],
           sd_cmd_idx := 6, sd_state := SD_READY,
           block_to_read := 0xFE # replicate 512 0x03, cmd17_idx := 0\<rparr>)
   \<and> sd_reads 514 ((sd_init block_image)
          \<lparr>sd_cmd := (sd_cmd (sd_init block_image))
                        [0 := 0x51, 1 := 0x00, 2 := 0x00, 3 := 0x00, 4 := 0x03, 5 := 0xFF],
           sd_cmd_idx := 6, sd_state := SD_READY\<rparr>)
       = Inr (0x00 # 0xFE # replicate 512 0x03,
              (sd_init block_image)
          \<lparr>sd_cmd := (sd_cmd (sd_init block_image))
                        [0 := 0x51, 1 := 0x00, 2 := 0x00, 3 := 0x00, 4 := 0x03, 5 := 0xFF],
           sd_cmd_idx := 0, sd_state := SD_IDLE,
           block_to_read := 0xFE # replicate 512 0x03, cmd17_idx := - 1\<rparr>)
   \<and> map block_image [0 ..< 512] = replicate 512 0x00"
proof -
  let ?r = "(sd_init block_image)
          \<lparr>sd_cmd := (sd_cmd (sd_init block_image))
                        [0 := 0x51, 1 := 0x00, 2 := 0x00, 3 := 0x00, 4 := 0x03, 5 := 0xFF],
           sd_cmd_idx := 6, sd_state := SD_READY\<rparr>"
  have g: "getting_state 0x51 = Some SD_GETTING_CMD17"
    by (simp add: getting_state_def)
  have r: "reachable ?r"
    using reachable_frame_ready[OF reachable_init _ g, of block_image "0x00" "0x00" "0x00" "0x03" "0xFF"]
    by (simp add: sd_init_simps)
  have p: "sd_state ?r = SD_READY" "sd_cmd ?r ! 0 = 0x51" "cmd17_idx ?r = - 1"
    by (simp_all add: frame_nth sd_init_simps)
  have b: "be32 (sd_cmd ?r ! 1) (sd_cmd ?r ! 2) (sd_cmd ?r ! 3) (sd_cmd ?r ! 4) = 3"
    by (simp add: frame_nth sd_init_simps be32_def)
  have blk3: "map block_image [1536 ..< 2048] = replicate 512 0x03"
    using block_image_block[of 3] by (simp del: upt_rec_numeral)
  have blk0: "map block_image [0 ..< 512] = replicate 512 0x00"
    using block_image_block[of 0] by (simp del: upt_rec_numeral)
  have data: "map (\<lambda>i. ucast (block_image i) :: 64 word) [1536 ..< 2048] = replicate 512 0x03"
  proof -
    have "map (\<lambda>i. ucast (block_image i) :: 64 word) [1536 ..< 2048]
          = map ucast (map block_image [1536 ..< 2048])"
      by (simp del: upt_rec_numeral add: comp_def)
    then show ?thesis unfolding blk3 by simp
  qed
  from cmd17_ack_then_token[OF r p b] r blk0
  show ?thesis
    by (simp del: upt_rec_numeral add: sd_init_simps be32_def blk3 data)
qed

text \<open>
  Claim C2 says that the reply to a CMD17 frame is 513 bytes, the first of them the start
  token \<open>0xFE\<close>.  It fails: after the CMD17 frame for block 0 and the read that enters
  \<open>SD_READY\<close>, the first reply read returns \<open>0x00\<close> and only the second returns \<open>0xFE\<close>.
\<close>

theorem cmd17_first_reply_not_token:
  "map_sum id fst (sd_exchange [0x51, 0x00, 0x00, 0x00, 0x00, 0xFF] 3 (sd_init zero_image))
   = Inr [0xFF, 0x00, 0xFE]"
proof -
  have "be32 (ucast (0x00 :: 64 word)) (ucast (0x00 :: 64 word)) (ucast (0x00 :: 64 word))
          (ucast (0x00 :: 64 word)) = 0"
    by (simp add: be32_def)
  from cmd17_exchange(1)[where s = "sd_init zero_image" and n = 2 and ?v5.0 = "0xFF", OF sd_inv_init _ this]
  have "sd_exchange [0x51, 0x00, 0x00, 0x00, 0x00, 0xFF] (Suc 2) (sd_init zero_image) =
         Inr (0xFF # 0x00 # map ucast (take (2 - 1) (0xFE # map (sd_storage (sd_init zero_image)) [512 * 0 ..< 512 * 0 + 512])),
              (sd_init zero_image)\<lparr>sd_cmd := (sd_cmd (sd_init zero_image))[0 := 0x51, 1 := ucast (0x00 :: 64 word), 2 := ucast (0x00 :: 64 word),
                                      3 := ucast (0x00 :: 64 word), 4 := ucast (0x00 :: 64 word), 5 := ucast (0xFF :: 64 word)],
                 sd_cmd_idx := 6, sd_state := SD_READY,
                 block_to_read := 0xFE # map (sd_storage (sd_init zero_image)) [512 * 0 ..< 512 * 0 + 512],
                 cmd17_idx := int 2 - 1\<rparr>)"
    by (simp add: sd_init_simps)
  moreover have "Suc 2 = 3" by simp
  ultimately show ?thesis by simp
qed

text \<open>
  Claim C2 as amended.  From a reachable \<open>SD_IDLE\<close> state, for a CMD17 frame whose
  big-endian block number \<open>B\<close> is below 8192 (the 4 MiB store holds 8192 blocks): after
  the read that enters \<open>SD_READY\<close>, the reply is 514 bytes, namely \<open>0x00\<close>, the start
  token \<open>0xFE\<close>, and the 512 bytes \<open>sd_storage[512 * B .. 512 * B + 511]\<close> in order.  The
  state is still \<open>SD_READY\<close> before the last of them is served and \<open>SD_IDLE\<close> after it,
  and the next read returns \<open>0xFF\<close>.
\<close>

theorem cmd17_reply_514:
  assumes "reachable s" "sd_state s = SD_IDLE"
    "be32 (ucast v1) (ucast v2) (ucast v3) (ucast v4) = B" "B < 8192"
  shows "sd_exchange [0x51, v1, v2, v3, v4, v5] 514 s =
           Inr (0xFF # 0x00 # 0xFE # map (\<lambda>i. ucast (sd_storage s i)) [512 * B ..< 512 * B + 511],
                s\<lparr>sd_cmd := (sd_cmd s)[0 := 0x51, 1 := ucast v1, 2 := ucast v2,
                                        3 := ucast v3, 4 := ucast v4, 5 := ucast v5],
                   sd_cmd_idx := 6, sd_state := SD_READY,
                   block_to_read := 0xFE # map (sd_storage s) [512 * B ..< 512 * B + 512],
                   cmd17_idx := 512\<rparr>)
       \<and> sd_exchange [0x51, v1, v2, v3, v4, v5] 515 s =
           Inr (0xFF # 0x00 # 0xFE # map (\<lambda>i. ucast (sd_storage s i)) [512 * B ..< 512 * B + 512],
                s\<lparr>sd_cmd := (sd_cmd s)[0 := 0x51, 1 := ucast v1, 2 := ucast v2,
                                        3 := ucast v3, 4 := ucast v4, 5 := ucast v5],
                   block_to_read := 0xFE # map (sd_storage s) [512 * B ..< 512 * B + 512],
                   cmd17_idx := - 1, sd_cmd_idx := 0, sd_state := SD_IDLE\<rparr>)
       \<and> sd_exchange [0x51, v1, v2, v3, v4, v5] 516 s =
           Inr (0xFF # 0x00 # 0xFE # map (\<lambda>i. ucast (sd_storage s i)) [512 * B ..< 512 * B + 512]
                  @ [0xFF],
                s\<lparr>sd_cmd := (sd_cmd s)[0 := 0x51, 1 := ucast v1, 2 := ucast v2,
                                        3 := ucast v3, 4 := ucast v4, 5 := ucast v5],
                   block_to_read := 0xFE # map (sd_storage s) [512 * B ..< 512 * B + 512],
                   cmd17_idx := - 1, sd_cmd_idx := 0, sd_state := SD_IDLE\<rparr>)"
proof -
  from assms(1) have inv: "sd_inv s" by (rule reachable_inv)
  have "map ucast (take (513 - 1) (0xFE # map (sd_storage s) [512 * B ..< 512 * B + 512]))
        = (0xFE :: 64 word) # map (\<lambda>i. ucast (sd_storage s i)) [512 * B ..< 512 * B + 511]"
    by (simp add: take_Cons' take_map comp_def)
  moreover have "Suc 513 = 514" by simp
  ultimately have "sd_exchange [0x51, v1, v2, v3, v4, v5] 514 s =
           Inr (0xFF # 0x00 # 0xFE # map (\<lambda>i. ucast (sd_storage s i)) [512 * B ..< 512 * B + 511],
                s\<lparr>sd_cmd := (sd_cmd s)[0 := 0x51, 1 := ucast v1, 2 := ucast v2,
                                        3 := ucast v3, 4 := ucast v4, 5 := ucast v5],
                   sd_cmd_idx := 6, sd_state := SD_READY,
                   block_to_read := 0xFE # map (sd_storage s) [512 * B ..< 512 * B + 512],
                   cmd17_idx := 512\<rparr>)"
    using cmd17_exchange(1)[where n = 513 and ?v5.0 = v5, OF inv assms(2,3,4)] by simp
  with cmd17_exchange(2,3)[where n = 1 and ?v5.0 = v5, OF inv assms(2,3,4)] show ?thesis
    by simp
qed

theorem cmd17_reply_514_witness:
  "reachable (sd_init ramp_image) \<and> sd_state (sd_init ramp_image) = SD_IDLE
   \<and> be32 0x00 0x00 0x00 0x01 = 1 \<and> (1::nat) < 8192
   \<and> map_sum id fst (sd_exchange [0x51, 0x00, 0x00, 0x00, 0x01, 0xFF] 516 (sd_init ramp_image))
       = Inr (0xFF # 0x00 # 0xFE # map (ucast \<circ> ramp_image) [512 ..< 1024] @ [0xFF])
   \<and> map_sum id (sd_state \<circ> snd)
        (sd_exchange [0x51, 0x00, 0x00, 0x00, 0x01, 0xFF] 515 (sd_init ramp_image))
       = Inr SD_IDLE
   \<and> map_sum id (sd_state \<circ> snd)
        (sd_exchange [0x51, 0x00, 0x00, 0x00, 0x01, 0xFF] 514 (sd_init ramp_image))
       = Inr SD_READY"
proof -
  have b: "be32 (ucast (0x00 :: 64 word)) (ucast (0x00 :: 64 word)) (ucast (0x00 :: 64 word))
             (ucast (0x01 :: 64 word)) = 1"
    by (simp add: be32_def)
  from cmd17_reply_514[where s = "sd_init ramp_image" and ?v5.0 = "0xFF", OF reachable_init _ b]
    reachable_init[of ramp_image]
  show ?thesis
    by (simp add: sd_init_simps be32_def comp_def)
qed

text \<open>
  Claim C1 says that a CMD17 frame whose block lies outside the 4 MiB store takes a fatal
  addressing-error path on its first dispatch, and never wraps or reads out of range.
  The source has no such check (lines 276 to 289).  Evaluated from the initial state with
  any disk image: for block \<open>0x00800000\<close> the 32-bit product \<open>block_no * 512\<close> wraps to 0
  and the dispatch returns \<open>0x00\<close> with block 0 staged; for block \<open>0x00002000\<close>, the first
  block past the end, the \<open>memcpy\<close> reads \<open>sd_storage\<close> from byte offset 4194304, outside
  the array.
\<close>

theorem cmd17_out_of_range_unchecked:
  "be32 0x00 0x80 0x00 0x00 = 8388608
   \<and> sd_exchange [0x51, 0x00, 0x80, 0x00, 0x00, 0xFF] 2 (sd_init img) =
       Inr ([0xFF, 0x00],
            (sd_init img)\<lparr>sd_cmd := (sd_cmd (sd_init img))
                                      [0 := 0x51, 1 := 0x00, 2 := 0x80, 3 := 0x00, 4 := 0x00, 5 := 0xFF],
                           sd_cmd_idx := 6, sd_state := SD_READY,
                           block_to_read := 0xFE # map img [0 ..< 512], cmd17_idx := 0\<rparr>)
   \<and> be32 0x00 0x00 0x20 0x00 = 8192
   \<and> sd_exchange [0x51, 0x00, 0x00, 0x20, 0x00, 0xFF] 2 (sd_init img) =
       Inl (Out_Of_Bounds SD_STORAGE 4194304)"
proof -
  have g: "getting_state 0x51 = Some SD_GETTING_CMD17"
    by (simp add: getting_state_def)
  have e: "sd_exchange [0x51, v1, v2, v3, v4, v5] 2 (sd_init img) =
           (case sd_reads (Suc 0)
                   ((sd_init img)\<lparr>sd_cmd := (sd_cmd (sd_init img))
                                      [0 := 0x51, Suc 0 := ucast v1, 2 := ucast v2, 3 := ucast v3,
                                       4 := ucast v4, 5 := ucast v5],
                           sd_cmd_idx := 6, sd_state := SD_READY\<rparr>) of
              Inl e \<Rightarrow> Inl e | Inr (rs, s') \<Rightarrow> Inr (0xFF # rs, s'))" for v1 v2 v3 v4 v5
    using sd_exchange_frame_pred[OF _ _ g, of "sd_init img" 2 v1 v2 v3 v4 v5]
    by (simp add: sd_init_simps)
  have wrap: "cmd17_offset ((sd_cmd (sd_init img))
                 [0 := 0x51, Suc 0 := 0x00, 2 := 0x80, 3 := 0x00, 4 := 0x00, 5 := 0xFF]) = 0"
    and beyond: "cmd17_offset ((sd_cmd (sd_init img))
                 [0 := 0x51, Suc 0 := 0x00, 2 := 0x00, 3 := 0x20, 4 := 0x00, 5 := 0xFF]) = 4194304"
    by (simp_all add: cmd17_frame_offset sd_init_simps cmd17_offset_examples)
  have a: "sd_exchange [0x51, 0x00, 0x80, 0x00, 0x00, 0xFF] 2 (sd_init img) =
       Inr ([0xFF, 0x00],
            (sd_init img)\<lparr>sd_cmd := (sd_cmd (sd_init img))
                                      [0 := 0x51, 1 := 0x00, 2 := 0x80, 3 := 0x00, 4 := 0x00, 5 := 0xFF],
                           sd_cmd_idx := 6, sd_state := SD_READY,
                           block_to_read := 0xFE # map img [0 ..< 512], cmd17_idx := 0\<rparr>)"
    unfolding e sd_reads_Suc0
    by (simp add: read_ready_cmd17_first frame_nth sd_init_simps cmd17_in_range_def
        cmd17_staged_def wrap)
  have b: "sd_exchange [0x51, 0x00, 0x00, 0x20, 0x00, 0xFF] 2 (sd_init img) =
       Inl (Out_Of_Bounds SD_STORAGE 4194304)"
    unfolding e sd_reads_Suc0
    by (simp add: read_ready_cmd17_first frame_nth sd_init_simps cmd17_in_range_def beyond)
  from a b show ?thesis
    by (simp add: be32_def)
qed

end
